theory Spec2Isabelle
  imports Main "HOL-Library.Word" "HOL-Library.Sublist" "HOL-Library.FSet"
begin

section \<open>Go values shared by the packages\<close>

text \<open>
  A Go \<^verbatim>\<open>[]byte\<close> and a Go \<^verbatim>\<open>string\<close> are both sequences of bytes; the conversions
  \<^verbatim>\<open>string(b)\<close> and \<^verbatim>\<open>[]byte(s)\<close> copy them unchanged, so one type serves for both.
\<close>

type_synonym bytes = string

text \<open>
  A Go \<^verbatim>\<open>error\<close> value: the text that \<^verbatim>\<open>Error()\<close> prints, and the error it wraps, if any.
  \<^verbatim>\<open>errors.New\<close> and \<^verbatim>\<open>fmt.Errorf\<close> with \<^verbatim>\<open>%v\<close> or \<^verbatim>\<open>%s\<close> wrap nothing;
  \<^verbatim>\<open>fmt.Errorf\<close> with \<^verbatim>\<open>%w\<close> prints its operand like \<^verbatim>\<open>%v\<close> and wraps it.
\<close>

datatype error = Err (msg: string) (wrapped: "error option")

definition errors_New :: "string \<Rightarrow> error" where
  "errors_New s = Err s None"

definition Errorf_s :: "string \<Rightarrow> string \<Rightarrow> error" where
  "Errorf_s pre s = Err (pre @ s) None"

definition Errorf_v :: "string \<Rightarrow> error \<Rightarrow> error" where
  "Errorf_v pre e = Err (pre @ msg e) None"

definition Errorf_w :: "string \<Rightarrow> error \<Rightarrow> error" where
  "Errorf_w pre e = Err (pre @ msg e) (Some e)"

text \<open>
  \<^verbatim>\<open>errors.Is\<close> walks the chain of wrapped errors. Go compares sentinel errors by identity;
  here a sentinel is identified by its value.
\<close>

fun errors_Is :: "error \<Rightarrow> error \<Rightarrow> bool" where
  "errors_Is (Err m w) target =
     (Err m w = target \<or> (case w of None \<Rightarrow> False | Some e \<Rightarrow> errors_Is e target))"

text \<open>\<^verbatim>\<open>strings.Split(s, sep)\<close> for a one-byte separator: the pieces between the separators.\<close>

fun Split :: "string \<Rightarrow> char \<Rightarrow> string list" where
  "Split [] sep = [[]]"
| "Split (c # cs) sep =
     (if c = sep then [] # Split cs sep
      else (case Split cs sep of
              [] \<Rightarrow> [[c]]
            | w # ws \<Rightarrow> (c # w) # ws))"

definition isDigit :: "char \<Rightarrow> bool" where
  "isDigit c = (48 \<le> (of_char c :: nat) \<and> (of_char c :: nat) \<le> 57)"

text \<open>
  The digit loop of \<^verbatim>\<open>strconv.ParseUint\<close> for base 10 and 64 bits, with \<open>n\<close> the value read so
  far: a byte that is no digit is a syntax error, a value that leaves 64 bits a range error,
  whichever comes first.
\<close>

fun parseUintLoop :: "string \<Rightarrow> nat \<Rightarrow> string + nat" where
  "parseUintLoop [] n = Inr n"
| "parseUintLoop (c # cs) n =
     (if \<not> isDigit c then Inl ''invalid syntax''
      else if 2 ^ 64 div 10 + 1 \<le> n then Inl ''value out of range''
      else if 2 ^ 64 - 1 < n * 10 + ((of_char c :: nat) - 48) then Inl ''value out of range''
      else parseUintLoop cs (n * 10 + ((of_char c :: nat) - 48)))"

section \<open>Package sctfe: configuration (config.go)\<close>

type_synonym Time = int

record CertValidationConfig =
  RootsPemFile :: string
  RejectExpired :: bool
  RejectUnexpired :: bool
  ExtKeyUsages :: string
  RejectExtensions :: string
  NotAfterStart :: "Time option"
  NotAfterLimit :: "Time option"

datatype ExtKeyUsage =
    ExtKeyUsageAny
  | ExtKeyUsageServerAuth
  | ExtKeyUsageClientAuth
  | ExtKeyUsageCodeSigning
  | ExtKeyUsageEmailProtection
  | ExtKeyUsageIPSECEndSystem
  | ExtKeyUsageIPSECTunnel
  | ExtKeyUsageIPSECUser
  | ExtKeyUsageTimeStamping
  | ExtKeyUsageOCSPSigning
  | ExtKeyUsageMicrosoftServerGatedCrypto
  | ExtKeyUsageNetscapeServerGatedCrypto

definition stringToKeyUsage :: "string \<Rightarrow> ExtKeyUsage option" where
  "stringToKeyUsage = map_of
     [(''Any'', ExtKeyUsageAny),
      (''ServerAuth'', ExtKeyUsageServerAuth),
      (''ClientAuth'', ExtKeyUsageClientAuth),
      (''CodeSigning'', ExtKeyUsageCodeSigning),
      (''EmailProtection'', ExtKeyUsageEmailProtection),
      (''IPSECEndSystem'', ExtKeyUsageIPSECEndSystem),
      (''IPSECTunnel'', ExtKeyUsageIPSECTunnel),
      (''IPSECUser'', ExtKeyUsageIPSECUser),
      (''TimeStamping'', ExtKeyUsageTimeStamping),
      (''OCSPSigning'', ExtKeyUsageOCSPSigning),
      (''MicrosoftServerGatedCrypto'', ExtKeyUsageMicrosoftServerGatedCrypto),
      (''NetscapeServerGatedCrypto'', ExtKeyUsageNetscapeServerGatedCrypto)]"

text \<open>
  The public keys a \<^verbatim>\<open>crypto.Signer\<close> can hand back from \<^verbatim>\<open>Public()\<close>: the type switch of
  \<^verbatim>\<open>New\<close> looks at the dynamic type only, so an ECDSA key carries its curve and nothing else.
\<close>

datatype Curve = P224 | P256 | P384 | P521

datatype PublicKey =
    ECDSA_PublicKey Curve
  | RSA_PublicKey nat
  | Ed25519_PublicKey

record Signer =
  Public :: PublicKey

type_synonym PEMCertPool = "bytes list"
type_synonym ObjectIdentifier = "int list"

text \<open>
  The struct \<^verbatim>\<open>CertValidationOpts\<close> is declared in another file of the package; these are
  the fields \<^verbatim>\<open>newCertValidationOpts\<close> fills in. A nil slice is the empty list.
\<close>

record CertValidationOpts =
  trustedRoots :: PEMCertPool
  rejectExpired :: bool
  rejectUnexpired :: bool
  notAfterStart :: "Time option"
  notAfterLimit :: "Time option"
  extKeyUsages :: "ExtKeyUsage list"
  rejectExtIds :: "ObjectIdentifier list"

record ValidatedLogConfig =
  Origin :: string
  Signer :: Signer
  CertValidationOpts :: CertValidationOpts

text \<open>
  What the configuration code takes from libraries outside the repository: reading the PEM file
  of roots (\<^verbatim>\<open>NewPEMCertPool\<close> followed by \<^verbatim>\<open>AppendCertsFromPEMFile\<close>), and the two renderings
  of package \<^verbatim>\<open>fmt\<close> and \<^verbatim>\<open>strconv\<close> that depend on more than the bytes at hand
  (\<^verbatim>\<open>%v\<close> of a public key, \<^verbatim>\<open>strconv.Quote\<close>).
\<close>

record golib =
  AppendCertsFromPEMFile :: "string \<Rightarrow> error + PEMCertPool"
  FormatKey :: "PublicKey \<Rightarrow> string"
  Quote :: "string \<Rightarrow> string"

text \<open>
  \<^verbatim>\<open>strconv.Atoi\<close>: an optional sign, then one or more decimal digits, within the range of a
  64-bit \<^verbatim>\<open>int\<close>; anything else is a \<^verbatim>\<open>*NumError\<close> that quotes the whole input.
\<close>

definition NumError :: "golib \<Rightarrow> string \<Rightarrow> string \<Rightarrow> error" where
  "NumError lib s why = Err (''strconv.Atoi: parsing '' @ Quote lib s @ '': '' @ why) None"

definition Atoi :: "golib \<Rightarrow> string \<Rightarrow> error + int" where
  "Atoi lib s =
     (let neg = (case s of [] \<Rightarrow> False | c # _ \<Rightarrow> c = CHR ''-'');
          ds = (case s of [] \<Rightarrow> [] | c # r \<Rightarrow> if c = CHR ''-'' \<or> c = CHR ''+'' then r else s)
      in if ds = [] then Inl (NumError lib s ''invalid syntax'')
         else case parseUintLoop ds 0 of
                Inl why \<Rightarrow> Inl (NumError lib s why)
              | Inr un \<Rightarrow>
                  if \<not> neg \<and> 2 ^ 63 \<le> un then Inl (NumError lib s ''value out of range'')
                  else if neg \<and> 2 ^ 63 < un then Inl (NumError lib s ''value out of range'')
                  else Inr (if neg then - int un else int un))"

text \<open>The inner loop of \<^verbatim>\<open>parseOIDs\<close>: one OID from its dot-separated pieces.\<close>

fun parseOID :: "golib \<Rightarrow> string list \<Rightarrow> ObjectIdentifier \<Rightarrow> error + ObjectIdentifier" where
  "parseOID lib [] oid = Inr oid"
| "parseOID lib (n # bits) oid =
     (case Atoi lib n of
        Inl err \<Rightarrow> Inl err
      | Inr p \<Rightarrow> parseOID lib bits (oid @ [p]))"

fun parseOIDsLoop ::
  "golib \<Rightarrow> string list \<Rightarrow> ObjectIdentifier list \<Rightarrow> error + ObjectIdentifier list" where
  "parseOIDsLoop lib [] ret = Inr ret"
| "parseOIDsLoop lib (s # oids) ret =
     (case parseOID lib (Split s CHR ''.'') [] of
        Inl err \<Rightarrow> Inl err
      | Inr oid \<Rightarrow> parseOIDsLoop lib oids (ret @ [oid]))"

definition parseOIDs :: "golib \<Rightarrow> string list \<Rightarrow> error + ObjectIdentifier list" where
  "parseOIDs lib oids = parseOIDsLoop lib oids []"

text \<open>
  The loop of \<^verbatim>\<open>newCertValidationOpts\<close> over the comma-separated usages. The accumulator is
  \<^verbatim>\<open>validationOpts.extKeyUsages\<close>; \<^verbatim>\<open>Any\<close> resets it to nil and leaves the loop.
\<close>

fun extKeyUsagesLoop :: "string list \<Rightarrow> ExtKeyUsage list \<Rightarrow> error + ExtKeyUsage list" where
  "extKeyUsagesLoop [] acc = Inr acc"
| "extKeyUsagesLoop (kuStr # rest) acc =
     (case stringToKeyUsage kuStr of
        Some ku \<Rightarrow>
          if ku = ExtKeyUsageAny then Inr []
          else extKeyUsagesLoop rest (acc @ [ku])
      | None \<Rightarrow> Inl (Errorf_s ''unknown extended key usage: '' kuStr))"

definition limitBeforeStart :: "CertValidationConfig \<Rightarrow> bool" where
  "limitBeforeStart cfg =
     (case NotAfterStart cfg of
        None \<Rightarrow> False
      | Some start \<Rightarrow> (case NotAfterLimit cfg of None \<Rightarrow> False | Some limit \<Rightarrow> limit < start))"

definition newCertValidationOpts :: "golib \<Rightarrow> CertValidationConfig \<Rightarrow> error + CertValidationOpts" where
  "newCertValidationOpts lib cfg =
     (if length (RootsPemFile cfg) = 0 then Inl (errors_New ''empty rootsPemFile'')
      else case AppendCertsFromPEMFile lib (RootsPemFile cfg) of
        Inl err \<Rightarrow> Inl (Errorf_v ''failed to read trusted roots: '' err)
      | Inr roots \<Rightarrow>
          if RejectExpired cfg \<and> RejectUnexpired cfg then Inl (errors_New ''rejecting all certificates'')
          else if limitBeforeStart cfg then Inl (errors_New ''limit before start'')
          else
            (let validationOpts =
                   \<lparr> trustedRoots = roots,
                     rejectExpired = RejectExpired cfg,
                     rejectUnexpired = RejectUnexpired cfg,
                     notAfterStart = NotAfterStart cfg,
                     notAfterLimit = NotAfterLimit cfg,
                     extKeyUsages = [],
                     rejectExtIds = [] \<rparr>;
                 lExtKeyUsages =
                   (if ExtKeyUsages cfg \<noteq> [] then Split (ExtKeyUsages cfg) CHR '','' else [])
             in case extKeyUsagesLoop lExtKeyUsages (extKeyUsages validationOpts) of
                  Inl err \<Rightarrow> Inl err
                | Inr ekus \<Rightarrow>
                    if RejectExtensions cfg \<noteq> [] then
                      (case parseOIDs lib (Split (RejectExtensions cfg) CHR '','') of
                         Inl err \<Rightarrow> Inl (Errorf_v ''failed to parse RejectExtensions: '' err)
                       | Inr ids \<Rightarrow> Inr (validationOpts\<lparr>extKeyUsages := ekus, rejectExtIds := ids\<rparr>))
                    else Inr (validationOpts\<lparr>extKeyUsages := ekus\<rparr>)))"

text \<open>\<^verbatim>\<open>New\<close>: a nil signer is \<open>None\<close>.\<close>

definition New ::
  "golib \<Rightarrow> string \<Rightarrow> Signer option \<Rightarrow> CertValidationConfig \<Rightarrow> error + ValidatedLogConfig" where
  "New lib origin signer cfg =
     (if origin = [] then Inl (errors_New ''empty origin'')
      else case signer of
        None \<Rightarrow> Inl (errors_New ''empty signer'')
      | Some sg \<Rightarrow>
          (case Public sg of
             ECDSA_PublicKey curve \<Rightarrow>
               (case newCertValidationOpts lib cfg of
                  Inl err \<Rightarrow> Inl (Errorf_v ''invalid cert validation config: '' err)
                | Inr vlc \<Rightarrow> Inr \<lparr> Origin = origin, Signer = sg, CertValidationOpts = vlc \<rparr>)
           | keyType \<Rightarrow> Inl (Errorf_s ''unsupported key type: '' (FormatKey lib keyType))))"

section \<open>Package storage (storage/storage.go)\<close>

definition maxCachedIssuerKeys :: nat where
  "maxCachedIssuerKeys = 2 ^ 20"

record KV =
  K :: bytes
  V :: bytes

text \<open>
  Types of the Tessera library: \<^verbatim>\<open>tessera.Index\<close>, \<^verbatim>\<open>ctonly.Entry\<close>, and an
  \<^verbatim>\<open>IndexFuture\<close>, a function without arguments that yields the same \<^verbatim>\<open>(Index, error)\<close>
  each time it is called and is therefore the value it yields.
\<close>

record Index =
  Index :: "64 word"
  IsDup :: bool

record Entry =
  Timestamp :: "64 word"
  IsPrecert :: bool
  Certificate :: bytes
  Precertificate :: bytes
  IssuerKeyHash :: bytes
  FingerprintsChain :: "bytes list"

type_synonym IndexFuture = "error + Index"

definition ErrPushback :: error where
  "ErrPushback = errors_New ''pushback''"

definition os_ErrNotExist :: error where
  "os_ErrNotExist = errors_New ''file does not exist''"

definition EntryBundleWidth :: "64 word" where
  "EntryBundleWidth = 256"

text \<open>
  Functions the storage package calls and that live outside \<^verbatim>\<open>storage.go\<close>:
  \<^verbatim>\<open>layout.PartialTileSize\<close> of Tessera, \<^verbatim>\<open>staticct.ExtractTimestampFromBundle\<close>,
  \<^verbatim>\<open>sha256.Sum256\<close> and \<^verbatim>\<open>strconv.Quote\<close>.
\<close>

record storagelib =
  PartialTileSize :: "64 word \<Rightarrow> 64 word \<Rightarrow> 64 word \<Rightarrow> 8 word"
  ExtractTimestampFromBundle :: "bytes \<Rightarrow> 64 word \<Rightarrow> error + 64 word"
  Sum256 :: "bytes \<Rightarrow> bytes"
  QuoteS :: "string \<Rightarrow> string"

text \<open>The calls a \<^verbatim>\<open>CTStorage\<close> makes to its collaborators, in the order it makes them.\<close>

datatype call =
    StoreData Entry
  | Await IndexFuture
  | ReadEntryBundle "64 word" "8 word"

text \<open>
  The struct \<^verbatim>\<open>CTStorage\<close>. \<^verbatim>\<open>reader\<close> and \<^verbatim>\<open>awaiter\<close> are represented by the one method
  the package calls on each; \<^verbatim>\<open>uint\<close> is 64 bits wide. \<open>calls\<close> is not a field of the Go
  struct: it records the calls made so far, oldest first.
\<close>

record CTStorage =
  storeData :: "Entry \<Rightarrow> IndexFuture"
  reader_ReadEntryBundle :: "64 word \<Rightarrow> 8 word \<Rightarrow> error + bytes"
  awaiter_Await :: "IndexFuture \<Rightarrow> error + (Index \<times> bytes)"
  enableAwaiter :: bool
  dedupeFutureInFlight :: "64 word"
  maxDedupeFutureInFlight :: "64 word"
  calls :: "call list"

text \<open>
  \<^verbatim>\<open>resetDedupeFutureInFlightJob\<close>: each tick of the ticker stores 0 in the counter; the job
  ends when the context is done.
\<close>

datatype job_event = Tick | Done

fun resetDedupeFutureInFlightJob :: "CTStorage \<Rightarrow> job_event list \<Rightarrow> CTStorage" where
  "resetDedupeFutureInFlightJob cts [] = cts"
| "resetDedupeFutureInFlightJob cts (Done # evs) = cts"
| "resetDedupeFutureInFlightJob cts (Tick # evs) =
     resetDedupeFutureInFlightJob (cts\<lparr>dedupeFutureInFlight := 0\<rparr>) evs"

text \<open>\<^verbatim>\<open>bytes.SplitN(s, sep, n)\<close> for a one-byte separator: at most \<open>n\<close> pieces, the last unsplit.\<close>

fun SplitN :: "bytes \<Rightarrow> char \<Rightarrow> nat \<Rightarrow> bytes list" where
  "SplitN s sep 0 = []"
| "SplitN s sep (Suc 0) = [s]"
| "SplitN [] sep (Suc (Suc n)) = [[]]"
| "SplitN (c # cs) sep (Suc (Suc n)) =
     (if c = sep then [] # SplitN cs sep (Suc n)
      else (case SplitN cs sep (Suc (Suc n)) of
              [] \<Rightarrow> [[c]]
            | w # ws \<Rightarrow> (c # w) # ws))"

text \<open>\<^verbatim>\<open>strconv.ParseUint(s, 10, 64)\<close>: one or more decimal digits, below \<open>2^64\<close>.\<close>

definition ParseUint :: "(string \<Rightarrow> string) \<Rightarrow> string \<Rightarrow> error + 64 word" where
  "ParseUint quote s =
     (if s = [] then Inl (Err (''strconv.ParseUint: parsing '' @ quote s @ '': invalid syntax'') None)
      else case parseUintLoop s 0 of
             Inl why \<Rightarrow> Inl (Err (''strconv.ParseUint: parsing '' @ quote s @ '': '' @ why) None)
           | Inr n \<Rightarrow> Inr (of_nat n))"

text \<open>The rendering of \<^verbatim>\<open>%d\<close> for an unsigned integer.\<close>

fun FormatUint :: "nat \<Rightarrow> string" where
  "FormatUint n =
     (if n < 10 then [char_of (48 + n)]
      else FormatUint (n div 10) @ [char_of (48 + n mod 10)])"

declare FormatUint.simps [simp del]

definition timestamp :: "storagelib \<Rightarrow> bytes \<Rightarrow> 64 word \<Rightarrow> error + 64 word" where
  "timestamp lib ebRaw N = ExtractTimestampFromBundle lib ebRaw N"

definition dedupeFuture ::
  "storagelib \<Rightarrow> CTStorage \<Rightarrow> IndexFuture \<Rightarrow> CTStorage \<times> (error + (64 word \<times> 64 word))" where
  "dedupeFuture lib cts f =
     (if sint (maxDedupeFutureInFlight cts) < sint (dedupeFutureInFlight cts)
        then (cts, Inl (Errorf_w ''too many duplicate submissions '' ErrPushback))
      else
        (let cts1 = cts\<lparr>dedupeFutureInFlight := dedupeFutureInFlight cts + 1\<rparr>;
             cts2 = cts1\<lparr>calls := calls cts1 @ [Await f]\<rparr>
         in case awaiter_Await cts f of
              Inl err \<Rightarrow>
                (cts2, Inl (Errorf_w ''error waiting for Tessera index future and its integration: '' err))
            | Inr (idx, cpRaw) \<Rightarrow>
                (let l = SplitN cpRaw CHR 0x0A 3
                 in if length l < 2 then (cts2, Inl (errors_New ''invalid checkpoint - no size''))
                    else case ParseUint (QuoteS lib) (l ! 1) of
                      Inl err \<Rightarrow>
                        (cts2, Inl (Errorf_v (''invalid checkpoint - can'' @ [CHR 0x27] @ ''t extract size: '') err))
                    | Inr ckptSize \<Rightarrow>
                        (let eBIdx = Index idx div EntryBundleWidth;
                             p = PartialTileSize lib 0 eBIdx ckptSize;
                             cts3 = cts2\<lparr>calls := calls cts2 @ [ReadEntryBundle eBIdx p]\<rparr>
                         in case reader_ReadEntryBundle cts eBIdx p of
                              Inl err \<Rightarrow>
                                if errors_Is err os_ErrNotExist
                                  then (cts3, Inl (Errorf_v (''leaf bundle at index '' @ FormatUint (unat eBIdx)
                                                              @ '' not found: '') err))
                                else (cts3, Inl (Errorf_v (''failed to fetch entry bundle at index ''
                                                            @ FormatUint (unat eBIdx) @ '': '') err))
                            | Inr eBRaw \<Rightarrow>
                                (let eIdx = Index idx mod EntryBundleWidth
                                 in case timestamp lib eBRaw eIdx of
                                      Inl err \<Rightarrow>
                                        (cts3, Inl (Errorf_v (''failed to extract timestamp of entry ''
                                                              @ FormatUint (unat eIdx) @ '' in bundle index ''
                                                              @ FormatUint (unat eBIdx) @ '': '') err))
                                    | Inr t \<Rightarrow> (cts3, Inr (Index idx, t)))))))"

definition Add ::
  "storagelib \<Rightarrow> CTStorage \<Rightarrow> Entry \<Rightarrow> CTStorage \<times> (error + (64 word \<times> 64 word))" where
  "Add lib cts entry =
     (let future = storeData cts entry;
          cts0 = cts\<lparr>calls := calls cts @ [StoreData entry]\<rparr>
      in case future of
           Inl err \<Rightarrow> (cts0, Inl (Errorf_w ''error waiting for Tessera index future: '' err))
         | Inr idx \<Rightarrow>
             if IsDup idx then dedupeFuture lib cts0 future
             else if enableAwaiter cts0 then
               (let cts1 = cts0\<lparr>calls := calls cts0 @ [Await future]\<rparr>
                in case awaiter_Await cts0 future of
                     Inl err \<Rightarrow>
                       (cts1, Inl (Errorf_w ''error waiting for Tessera index future and its integration: '' err))
                   | Inr (idx', cp) \<Rightarrow> (cts1, Inr (Index idx', Timestamp entry)))
             else (cts0, Inr (Index idx, Timestamp entry)))"

text \<open>\<^verbatim>\<open>hex.EncodeToString\<close>: two lowercase hexadecimal digits for each byte.\<close>

definition hextable :: string where
  "hextable = ''0123456789abcdef''"

fun EncodeToString :: "bytes \<Rightarrow> string" where
  "EncodeToString [] = []"
| "EncodeToString (b # src) =
     hextable ! ((of_char b :: nat) div 16) # hextable ! ((of_char b :: nat) mod 16) # EncodeToString src"

text \<open>An \<^verbatim>\<open>x509.Certificate\<close>, of which the package reads the DER bytes only.\<close>

record Certificate =
  Raw :: bytes

text \<open>The loop of \<^verbatim>\<open>AddIssuerChain\<close>, with \<open>kvs\<close> the slice it appends to.\<close>

fun issuerChainKVs :: "storagelib \<Rightarrow> Certificate list \<Rightarrow> KV list \<Rightarrow> KV list" where
  "issuerChainKVs lib [] kvs = kvs"
| "issuerChainKVs lib (c # chain) kvs =
     (let id = Sum256 lib (Raw c);
          key = EncodeToString id
      in issuerChainKVs lib chain (kvs @ [\<lparr>K = key, V = Raw c\<rparr>]))"

text \<open>
  \<^verbatim>\<open>AddIssuerChain\<close>. The field \<^verbatim>\<open>storeIssuers\<close> is a function that changes some state
  \<open>'s\<close> of its own (the cache and the store behind it); \<open>None\<close> is the nil error.
\<close>

definition AddIssuerChain ::
  "storagelib \<Rightarrow> ('s \<Rightarrow> KV list \<Rightarrow> error option \<times> 's) \<Rightarrow> 's \<Rightarrow> Certificate list \<Rightarrow> error option \<times> 's" where
  "AddIssuerChain lib storeIssuers st chain =
     (case storeIssuers st (issuerChainKVs lib chain []) of
        (Some err, st') \<Rightarrow> (Some (Errorf_v ''error storing intermediates: '' err), st')
      | (None, st') \<Rightarrow> (None, st'))"

text \<open>
  The closure returned by \<^verbatim>\<open>cachedStoreIssuers\<close>, for a call during which no other call of
  the closure runs. Its state is the map \<open>m\<close> of cached keys (a set, since the values are
  \<^verbatim>\<open>struct{}\<close>) together with the state \<open>b\<close> of the \<^verbatim>\<open>IssuerStorage\<close> \<open>s\<close> behind it. The
  first loop collects the request, the second fills the cache. Calls that run at the same time
  are the subject of \<open>closureStep\<close> below.
\<close>

fun cacheMisses :: "string fset \<Rightarrow> KV list \<Rightarrow> KV list \<Rightarrow> KV list" where
  "cacheMisses m [] req = req"
| "cacheMisses m (kv # kvs) req =
     (if K kv |\<in>| m then cacheMisses m kvs req
      else cacheMisses m kvs (req @ [kv]))"

fun cacheFill :: "string fset \<Rightarrow> KV list \<Rightarrow> string fset" where
  "cacheFill m [] = m"
| "cacheFill m (kv # req) =
     (if maxCachedIssuerKeys \<le> fcard m then m
      else cacheFill (finsert (K kv) m) req)"

definition cachedStoreIssuers ::
  "('b \<Rightarrow> KV list \<Rightarrow> error option \<times> 'b) \<Rightarrow> string fset \<times> 'b \<Rightarrow> KV list
     \<Rightarrow> error option \<times> (string fset \<times> 'b)" where
  "cachedStoreIssuers s st kv =
     (case st of (m, b) \<Rightarrow>
        (let req = cacheMisses m kv []
         in case s b req of
              (Some err, b') \<Rightarrow>
                (Some (Errorf_v ''AddIssuersIfNotExist()s: error storing issuer data in the underlying IssuerStorage: '' err),
                 (m, b'))
            | (None, b') \<Rightarrow> (None, (cacheFill m req, b'))))"

text \<open>
  The same closure step by step, for calls that run at the same time. A step is one access to
  what the calls share: a lookup in \<open>m\<close> under \<^verbatim>\<open>mu.RLock\<close>, the call of the store, the test
  of \<^verbatim>\<open>len(m)\<close>, which holds no lock, or an insertion under \<^verbatim>\<open>mu.Lock\<close>. A
  \<open>closure_state\<close> says where a call is: in the first loop, with the records still to look
  up and \<open>req\<close> as collected so far; at the test of the second loop, with the records of
  \<open>req\<close> still to cache; after a test that found room and before the insertion of that
  record; or returned.
\<close>

datatype closure_state =
    Lookup "KV list" "KV list"
  | Fill "KV list"
  | Insert KV "KV list"
  | Return "error option"

fun closureStep ::
  "('b \<Rightarrow> KV list \<Rightarrow> error option \<times> 'b) \<Rightarrow> string fset \<times> 'b \<Rightarrow> closure_state
     \<Rightarrow> (string fset \<times> 'b) \<times> closure_state" where
  "closureStep s (m, b) (Lookup (kv # kvs) req) =
     ((m, b), if K kv |\<in>| m then Lookup kvs req else Lookup kvs (req @ [kv]))"
| "closureStep s (m, b) (Lookup [] req) =
     (case s b req of
        (Some err, b') \<Rightarrow>
          ((m, b'),
           Return (Some (Errorf_v ''AddIssuersIfNotExist()s: error storing issuer data in the underlying IssuerStorage: '' err)))
      | (None, b') \<Rightarrow> ((m, b'), Fill req))"
| "closureStep s (m, b) (Fill (kv # req)) =
     ((m, b), if maxCachedIssuerKeys \<le> fcard m then Return None else Insert kv req)"
| "closureStep s (m, b) (Fill []) = ((m, b), Return None)"
| "closureStep s (m, b) (Insert kv req) = ((finsert (K kv) m, b), Fill req)"
| "closureStep s (m, b) (Return r) = ((m, b), Return r)"

text \<open>
  Calls in progress, one per goroutine, on one cache and one store: the schedule names the
  goroutine that takes each next step.
\<close>

fun concurrentCalls ::
  "('b \<Rightarrow> KV list \<Rightarrow> error option \<times> 'b) \<Rightarrow> (string fset \<times> 'b) \<times> closure_state list \<Rightarrow> nat list
     \<Rightarrow> (string fset \<times> 'b) \<times> closure_state list" where
  "concurrentCalls s st [] = st"
| "concurrentCalls s (shared, gs) (i # schedule) =
     (if i < length gs then
        (case closureStep s shared (gs ! i) of
           (shared', g') \<Rightarrow> concurrentCalls s (shared', gs[i := g']) schedule)
      else concurrentCalls s (shared, gs) schedule)"

text \<open>
  A goroutine that has passed the test of \<^verbatim>\<open>len(m)\<close> and not yet inserted counts as one
  insertion to come; the cache is within its overshoot when its size and the insertions to
  come stay below \<open>2^20\<close> plus the number of goroutines.
\<close>

definition inserting :: "closure_state \<Rightarrow> nat" where
  "inserting g = (case g of Insert kv req \<Rightarrow> 1 | _ \<Rightarrow> 0)"

definition withinOvershoot :: "(string fset \<times> 'b) \<times> closure_state list \<Rightarrow> bool" where
  "withinOvershoot st \<longleftrightarrow>
     fcard (fst (fst st)) + sum_list (map inserting (snd st)) < maxCachedIssuerKeys + length (snd st)"

section \<open>Package inmemory (internal/testonly/storage/inmemory/issuers.go)\<close>

text \<open>\<^verbatim>\<open>IssuersStorage\<close> is a Go map from object names to values.\<close>

fun inmemory_AddIssuersIfNotExist ::
  "(string \<rightharpoonup> bytes) \<Rightarrow> KV list \<Rightarrow> error option \<times> (string \<rightharpoonup> bytes)" where
  "inmemory_AddIssuersIfNotExist s [] = (None, s)"
| "inmemory_AddIssuersIfNotExist s (kv # kvs) =
     (let objName = K kv
      in case s objName of
           Some old \<Rightarrow> inmemory_AddIssuersIfNotExist s kvs
         | None \<Rightarrow> inmemory_AddIssuersIfNotExist (s(objName \<mapsto> V kv)) kvs)"

section \<open>Package aws (storage/aws/issuers.go)\<close>

text \<open>
  The S3 service behind \<^verbatim>\<open>s3Client\<close>, for one bucket: the objects it holds (body and content
  type under each object name) and, for each object name, whether a request for it fails before
  it reaches the bucket. A failed request carries the Go error and, when that error is a
  \<^verbatim>\<open>smithy.APIError\<close>, its error code. \<^verbatim>\<open>PutObject\<close> with \<^verbatim>\<open>IfNoneMatch: "*"\<close> writes the object
  unless one of that name exists, which is the API error \<^verbatim>\<open>PreconditionFailed\<close>.
\<close>

record s3_failure =
  apiErrorCode :: "string option"
  goError :: error

record S3 =
  objects :: "string \<rightharpoonup> bytes \<times> string"
  fault :: "string \<Rightarrow> s3_failure option"

definition PutObject :: "S3 \<Rightarrow> string \<Rightarrow> bytes \<Rightarrow> string \<Rightarrow> s3_failure option \<times> S3" where
  "PutObject c key body ctype =
     (case fault c key of
        Some f \<Rightarrow> (Some f, c)
      | None \<Rightarrow>
          (case objects c key of
             Some old \<Rightarrow>
               (Some \<lparr> apiErrorCode = Some ''PreconditionFailed'',
                       goError = errors_New ''api error PreconditionFailed'' \<rparr>, c)
           | None \<Rightarrow> (None, c\<lparr>objects := (objects c)(key \<mapsto> (body, ctype))\<rparr>)))"

record aws_IssuersStorage =
  s3Client :: S3
  bucket :: string
  prefix :: string
  contentType :: string

text \<open>Library functions of the package: \<^verbatim>\<open>path.Join\<close> and the rendering of \<^verbatim>\<open>%q\<close>.\<close>

record awslib =
  path_Join :: "string \<Rightarrow> string \<Rightarrow> string"
  QuoteA :: "string \<Rightarrow> string"

definition keyToObjName :: "awslib \<Rightarrow> aws_IssuersStorage \<Rightarrow> bytes \<Rightarrow> string" where
  "keyToObjName lib s key = path_Join lib (prefix s) key"

text \<open>
  A call returns or panics: \<^verbatim>\<open>apiErr.ErrorCode()\<close> is called whether or not \<^verbatim>\<open>errors.As\<close> found
  an API error, and on the nil interface it panics.
\<close>

datatype 'a outcome = Returns 'a | Panics

fun aws_AddIssuersIfNotExist ::
  "awslib \<Rightarrow> aws_IssuersStorage \<Rightarrow> KV list \<Rightarrow> error option outcome \<times> aws_IssuersStorage" where
  "aws_AddIssuersIfNotExist lib s [] = (Returns None, s)"
| "aws_AddIssuersIfNotExist lib s (kv # kvs) =
     (let objName = keyToObjName lib s (K kv)
      in case PutObject (s3Client s) objName (V kv) (contentType s) of
           (Some f, c) \<Rightarrow>
             (case apiErrorCode f of
                None \<Rightarrow> (Panics, s\<lparr>s3Client := c\<rparr>)
              | Some code \<Rightarrow>
                  if code = ''PreconditionFailed'' then (Returns None, s\<lparr>s3Client := c\<rparr>)
                  else (Returns (Some (Errorf_w (''failed to write object '' @ QuoteA lib objName
                                                  @ '' to bucket '' @ QuoteA lib (bucket s) @ '': '')
                                                (goError f))),
                        s\<lparr>s3Client := c\<rparr>))
         | (None, c) \<Rightarrow> aws_AddIssuersIfNotExist lib (s\<lparr>s3Client := c\<rparr>) kvs)"

text \<open>
  The S3-backed store as the \<^verbatim>\<open>IssuerStorage\<close> behind the closure of
  \<^verbatim>\<open>cachedStoreIssuers\<close>. For the closure a panic of the store comes to the same as an error
  of the store: the call ends before the second loop and the cache is left as it was. A panic
  is therefore shown to the closure as an error.
\<close>

definition aws_IssuerStorage ::
  "awslib \<Rightarrow> aws_IssuersStorage \<Rightarrow> KV list \<Rightarrow> error option \<times> aws_IssuersStorage" where
  "aws_IssuerStorage lib s kv =
     (case aws_AddIssuersIfNotExist lib s kv of
        (Returns r, s') \<Rightarrow> (r, s')
      | (Panics, s') \<Rightarrow> (Some (errors_New ''panic: runtime error: invalid memory address or nil pointer dereference''), s'))"

section \<open>Runs of the issuer cache\<close>

text \<open>
  An \<^verbatim>\<open>IssuerStorage\<close> that also keeps, oldest first, every request it was given together
  with the error it answered (\<open>None\<close> for nil).
\<close>

definition logged ::
  "('b \<Rightarrow> KV list \<Rightarrow> error option \<times> 'b)
     \<Rightarrow> 'b \<times> (KV list \<times> error option) list \<Rightarrow> KV list
     \<Rightarrow> error option \<times> ('b \<times> (KV list \<times> error option) list)" where
  "logged s st req =
     (case st of (b, log) \<Rightarrow>
        (case s b req of (r, b') \<Rightarrow> (r, (b', log @ [(req, r)]))))"

text \<open>Successive calls of one closure \<open>f\<close>, each on the state the call before it left.\<close>

fun callsInTurn :: "('s \<Rightarrow> 'a \<Rightarrow> 'r \<times> 's) \<Rightarrow> 's \<Rightarrow> 'a list \<Rightarrow> 's" where
  "callsInTurn f st [] = st"
| "callsInTurn f st (x # xs) = callsInTurn f (snd (f st x)) xs"

text \<open>
  The state of a cache in front of a logging store is sound when every cached key belongs to a
  request that the store answered with nil.
\<close>

definition cachedAfterSuccess :: "string fset \<times> 'b \<times> (KV list \<times> error option) list \<Rightarrow> bool" where
  "cachedAfterSuccess st \<longleftrightarrow>
     (\<forall>k. k |\<in>| fst st \<longrightarrow> (\<exists>req. (req, None) \<in> set (snd (snd st)) \<and> k \<in> K ` set req))"

section \<open>Concrete inputs\<close>

definition example_golib :: golib where
  "example_golib =
     \<lparr> AppendCertsFromPEMFile =
         (\<lambda>f. if f = ''roots.pem'' then Inr [''root-der''] else Inl (errors_New ''no such file'')),
       FormatKey = (\<lambda>k. ''&{...}''),
       Quote = (\<lambda>s. [CHR 0x22] @ s @ [CHR 0x22]) \<rparr>"

definition example_cfg :: CertValidationConfig where
  "example_cfg =
     \<lparr> RootsPemFile = ''roots.pem'', RejectExpired = False, RejectUnexpired = False,
       ExtKeyUsages = [], RejectExtensions = [], NotAfterStart = None, NotAfterLimit = None \<rparr>"

definition example_opts :: CertValidationOpts where
  "example_opts =
     \<lparr> trustedRoots = [''root-der''], rejectExpired = False, rejectUnexpired = False,
       notAfterStart = None, notAfterLimit = None, extKeyUsages = [], rejectExtIds = [] \<rparr>"

definition example_storagelib :: storagelib where
  "example_storagelib =
     \<lparr> PartialTileSize =
         (\<lambda>level index logSize.
            if index < drop_bit (unat level * 8) logSize div 256 then 0
            else ucast (drop_bit (unat level * 8) logSize mod 256)),
       ExtractTimestampFromBundle =
         (\<lambda>eb n. if eb = ''bundle-0'' \<and> n = 5 then Inr 1111
                  else Inl (errors_New ''malformed bundle'')),
       Sum256 = (\<lambda>der. take 32 (der @ replicate 32 (CHR 0x00))),
       QuoteS = (\<lambda>s. [CHR 0x22] @ s @ [CHR 0x22]) \<rparr>"

definition example_checkpoint :: bytes where
  "example_checkpoint = ''example.com/log'' @ [CHR 0x0A] @ ''6'' @ [CHR 0x0A] @ ''cm9vdA=='' @ [CHR 0x0A]"

text \<open>
  A storage whose sequencer knows the certificate \<open>''seen''\<close> as the leaf at index 5 and gives
  every other entry index 6; the published checkpoint has size 6.
\<close>

definition example_cts :: CTStorage where
  "example_cts =
     \<lparr> storeData =
         (\<lambda>e. if Certificate e = ''seen'' then Inr \<lparr>Index = 5, IsDup = True\<rparr>
               else Inr \<lparr>Index = 6, IsDup = False\<rparr>),
       reader_ReadEntryBundle =
         (\<lambda>i p. if i = 0 then Inr ''bundle-0'' else Inl os_ErrNotExist),
       awaiter_Await =
         (\<lambda>f. case f of Inl err \<Rightarrow> Inl err | Inr i \<Rightarrow> Inr (i, example_checkpoint)),
       enableAwaiter = True,
       dedupeFutureInFlight = 0,
       maxDedupeFutureInFlight = 100,
       calls = [] \<rparr>"

definition example_entry :: "bytes \<Rightarrow> Entry" where
  "example_entry cert =
     \<lparr> Timestamp = 2222, IsPrecert = False, Certificate = cert, Precertificate = [],
       IssuerKeyHash = [], FingerprintsChain = [] \<rparr>"

definition example_awslib :: awslib where
  "example_awslib =
     \<lparr> path_Join = (\<lambda>a b. a @ ''/'' @ b),
       QuoteA = (\<lambda>s. [CHR 0x22] @ s @ [CHR 0x22]) \<rparr>"

text \<open>A bucket that already holds the issuer \<open>''aa''\<close> and no other, with no failing request.\<close>

definition example_aws :: aws_IssuersStorage where
  "example_aws =
     \<lparr> s3Client =
         \<lparr> objects = [''issuers/aa'' \<mapsto> (''der-a'', ''application/pkix-cert'')],
           fault = (\<lambda>key. None) \<rparr>,
       bucket = ''log-bucket'',
       prefix = ''issuers'',
       contentType = ''application/pkix-cert'' \<rparr>"

definition example_kvs :: "KV list" where
  "example_kvs = [\<lparr>K = ''aa'', V = ''der-a''\<rparr>, \<lparr>K = ''bb'', V = ''der-b''\<rparr>]"

text \<open>A cache one key short of full: the keys are the strings of 0 to \<open>2^20 - 2\<close> letters k.\<close>

definition example_cache :: "string fset" where
  "example_cache = (\<lambda>n. replicate n CHR ''k'') |`| fset_of_list [0..<maxCachedIssuerKeys - 1]"

section \<open>Properties of \<^verbatim>\<open>CTStorage.Add\<close> and \<^verbatim>\<open>dedupeFuture\<close>\<close>

lemma example_checkpoint_lines:
  "SplitN example_checkpoint CHR 0x0A 3 = [''example.com/log'', ''6'', ''cm9vdA=='' @ [CHR 0x0A]]"
  by (simp add: example_checkpoint_def numeral_3_eq_3)

lemma example_checkpoint_size: "ParseUint quote ''6'' = Inr 6"
  by (simp add: ParseUint_def isDigit_def)

lemmas example_storage_defs =
  example_cts_def example_entry_def example_storagelib_def example_checkpoint_lines
  example_checkpoint_size EntryBundleWidth_def timestamp_def

lemma dedupeFuture_pushback:
  "sint (maxDedupeFutureInFlight cts) < sint (dedupeFutureInFlight cts) \<Longrightarrow>
   dedupeFuture lib cts f = (cts, Inl (Errorf_w ''too many duplicate submissions '' ErrPushback))"
  by (simp add: dedupeFuture_def)

lemma dedupeFuture_success_iff:
  "snd (dedupeFuture lib cts f) = Inr (i, t) \<longleftrightarrow>
     (\<not> sint (maxDedupeFutureInFlight cts) < sint (dedupeFutureInFlight cts) \<and>
      (\<exists>idx cpRaw ckptSize eBRaw.
          awaiter_Await cts f = Inr (idx, cpRaw) \<and>
          2 \<le> length (SplitN cpRaw CHR 0x0A 3) \<and>
          ParseUint (QuoteS lib) (SplitN cpRaw CHR 0x0A 3 ! 1) = Inr ckptSize \<and>
          reader_ReadEntryBundle cts (Index idx div 256)
            (PartialTileSize lib 0 (Index idx div 256) ckptSize) = Inr eBRaw \<and>
          ExtractTimestampFromBundle lib eBRaw (Index idx mod 256) = Inr t \<and>
          i = Index idx))"
proof (cases "sint (maxDedupeFutureInFlight cts) < sint (dedupeFutureInFlight cts)")
  case True
  then show ?thesis by (simp add: dedupeFuture_def)
next
  case admitted: False
  show ?thesis
  proof (cases "awaiter_Await cts f")
    case (Inl err)
    with admitted show ?thesis by (simp add: dedupeFuture_def)
  next
    case (Inr r)
    obtain idx cpRaw where r: "r = (idx, cpRaw)" by (cases r)
    note awaited = Inr [unfolded r]
    show ?thesis
    proof (cases "length (SplitN cpRaw CHR 0x0A 3) < 2")
      case True
      with admitted awaited show ?thesis by (simp add: dedupeFuture_def)
    next
      case hasSize: False
      show ?thesis
      proof (cases "ParseUint (QuoteS lib) (SplitN cpRaw CHR 0x0A 3 ! 1)")
        case (Inl err)
        with admitted awaited hasSize show ?thesis by (simp add: dedupeFuture_def)
      next
        case (Inr ckptSize)
        note parsed = this
        show ?thesis
        proof (cases "reader_ReadEntryBundle cts (Index idx div 256)
                        (PartialTileSize lib 0 (Index idx div 256) ckptSize)")
          case (Inl err)
          with admitted awaited hasSize parsed show ?thesis
            by (simp add: dedupeFuture_def EntryBundleWidth_def Let_def)
        next
          case (Inr eBRaw)
          note fetched = this
          show ?thesis
          proof (cases "ExtractTimestampFromBundle lib eBRaw (Index idx mod 256)")
            case (Inl err)
            with admitted awaited hasSize parsed fetched show ?thesis
              by (simp add: dedupeFuture_def EntryBundleWidth_def timestamp_def Let_def)
          next
            case (Inr t')
            with admitted awaited hasSize parsed fetched show ?thesis
              by (auto simp: dedupeFuture_def EntryBundleWidth_def timestamp_def Let_def)
          qed
        qed
      qed
    qed
  qed
qed

text \<open>
  Claim C1. When the index future of \<^verbatim>\<open>Add\<close> resolves to a duplicate, and the awaiter hands
  back the index the future resolved to, \<^verbatim>\<open>Add\<close> succeeds with the pair \<open>(i, t)\<close> exactly when
  the recovery is admitted, the checkpoint has a size on its second line, the entry bundle
  number \<open>index div 256\<close> can be read, \<open>t\<close> is the timestamp extracted from that bundle at
  position \<open>index mod 256\<close>, and \<open>i\<close> is the future's index. The timestamp of the entry that
  was submitted plays no part in the result.
\<close>

theorem Add_duplicate_recovers_committed_timestamp:
  assumes "storeData cts entry = Inr idx" and "IsDup idx"
    and "\<forall>idx' cp. awaiter_Await cts (Inr idx) = Inr (idx', cp) \<longrightarrow> Index idx' = Index idx"
  shows "snd (Add lib cts entry) = Inr (i, t) \<longleftrightarrow>
     (\<not> sint (maxDedupeFutureInFlight cts) < sint (dedupeFutureInFlight cts) \<and>
      (\<exists>idx' cpRaw ckptSize eBRaw.
          awaiter_Await cts (Inr idx) = Inr (idx', cpRaw) \<and>
          2 \<le> length (SplitN cpRaw CHR 0x0A 3) \<and>
          ParseUint (QuoteS lib) (SplitN cpRaw CHR 0x0A 3 ! 1) = Inr ckptSize \<and>
          reader_ReadEntryBundle cts (Index idx div 256)
            (PartialTileSize lib 0 (Index idx div 256) ckptSize) = Inr eBRaw \<and>
          ExtractTimestampFromBundle lib eBRaw (Index idx mod 256) = Inr t \<and>
          i = Index idx))"
proof -
  have "Add lib cts entry = dedupeFuture lib (cts\<lparr>calls := calls cts @ [StoreData entry]\<rparr>) (Inr idx)"
    using assms(1,2) by (simp add: Add_def)
  then show ?thesis
    using assms(3) by (simp add: dedupeFuture_success_iff) metis
qed

text \<open>
  The theorem at a duplicate of the leaf at index 5: the entry submitted carries the timestamp
  2222, the bundle holds 1111, and \<^verbatim>\<open>Add\<close> returns \<open>(5, 1111)\<close>.
\<close>

theorem Add_duplicate_recovers_committed_timestamp_witness:
  "storeData example_cts (example_entry ''seen'') = Inr \<lparr>Index = 5, IsDup = True\<rparr> \<and>
   Timestamp (example_entry ''seen'') = 2222 \<and>
   snd (Add example_storagelib example_cts (example_entry ''seen'')) = Inr (5, 1111)"
proof -
  let ?idx = "\<lparr>Index = 5, IsDup = True\<rparr>"
  have stored: "storeData example_cts (example_entry ''seen'') = Inr ?idx"
    by (simp add: example_cts_def example_entry_def)
  have dup: "IsDup ?idx"
    by simp
  have await: "\<forall>idx' cp. awaiter_Await example_cts (Inr ?idx) = Inr (idx', cp) \<longrightarrow> Index idx' = Index ?idx"
    by (simp add: example_cts_def)
  have admitted: "\<not> sint (maxDedupeFutureInFlight example_cts) < sint (dedupeFutureInFlight example_cts)"
    by (simp add: example_cts_def)
  have recovery:
    "awaiter_Await example_cts (Inr ?idx) = Inr (?idx, example_checkpoint) \<and>
     2 \<le> length (SplitN example_checkpoint CHR 0x0A 3) \<and>
     ParseUint (QuoteS example_storagelib) (SplitN example_checkpoint CHR 0x0A 3 ! 1) = Inr 6 \<and>
     reader_ReadEntryBundle example_cts (Index ?idx div 256)
       (PartialTileSize example_storagelib 0 (Index ?idx div 256) 6) = Inr ''bundle-0'' \<and>
     ExtractTimestampFromBundle example_storagelib ''bundle-0'' (Index ?idx mod 256) = Inr 1111"
    by (simp add: example_storage_defs)
  have "snd (Add example_storagelib example_cts (example_entry ''seen'')) = Inr (5, 1111)"
    using Add_duplicate_recovers_committed_timestamp [OF stored dup await, of example_storagelib 5 1111]
      admitted recovery by auto
  with stored show ?thesis
    by (simp add: example_entry_def)
qed

text \<open>
  Claim C6. When the index future resolves to an index that is not a duplicate, \<^verbatim>\<open>Add\<close> returns
  that index with the timestamp of the entry it was given. With the awaiter enabled it calls
  \<^verbatim>\<open>Await\<close> on the future first (here: \<^verbatim>\<open>Await\<close> hands back the index the future resolved
  to), and an error of \<^verbatim>\<open>Await\<close> is the error of \<^verbatim>\<open>Add\<close>; with the awaiter disabled it calls
  nothing after \<^verbatim>\<open>storeData\<close>. For a duplicate the flag \<^verbatim>\<open>enableAwaiter\<close> changes neither the
  result nor the calls made.
\<close>

theorem Add_new_entry_keeps_timestamp:
  assumes "storeData cts entry = Inr idx"
  shows "(\<not> IsDup idx \<and> (enableAwaiter cts \<longrightarrow> awaiter_Await cts (Inr idx) = Inr (idx, cp)) \<longrightarrow>
            snd (Add lib cts entry) = Inr (Index idx, Timestamp entry) \<and>
            calls (fst (Add lib cts entry)) =
              calls cts @ (if enableAwaiter cts then [StoreData entry, Await (Inr idx)] else [StoreData entry])) \<and>
         (\<not> IsDup idx \<and> enableAwaiter cts \<and> awaiter_Await cts (Inr idx) = Inl err \<longrightarrow>
            snd (Add lib cts entry) =
              Inl (Errorf_w ''error waiting for Tessera index future and its integration: '' err)) \<and>
         (IsDup idx \<longrightarrow>
            snd (Add lib (cts\<lparr>enableAwaiter := b\<rparr>) entry) = snd (Add lib cts entry) \<and>
            calls (fst (Add lib (cts\<lparr>enableAwaiter := b\<rparr>) entry)) = calls (fst (Add lib cts entry)))"
  using assms
  by (auto simp: Add_def dedupeFuture_def Let_def split: sum.splits prod.splits)

text \<open>
  The theorem at an entry the sequencer has not seen, with the awaiter enabled, disabled and
  failing, and at a duplicate.
\<close>

theorem Add_new_entry_keeps_timestamp_witness:
  "storeData example_cts (example_entry ''new'') = Inr \<lparr>Index = 6, IsDup = False\<rparr> \<and>
   enableAwaiter example_cts \<and>
   awaiter_Await example_cts (Inr \<lparr>Index = 6, IsDup = False\<rparr>) = Inr (\<lparr>Index = 6, IsDup = False\<rparr>, example_checkpoint) \<and>
   snd (Add example_storagelib example_cts (example_entry ''new'')) = Inr (6, 2222) \<and>
   calls (fst (Add example_storagelib example_cts (example_entry ''new''))) =
     [StoreData (example_entry ''new''), Await (Inr \<lparr>Index = 6, IsDup = False\<rparr>)] \<and>
   snd (Add example_storagelib (example_cts\<lparr>enableAwaiter := False\<rparr>) (example_entry ''new'')) = Inr (6, 2222) \<and>
   calls (fst (Add example_storagelib (example_cts\<lparr>enableAwaiter := False\<rparr>) (example_entry ''new''))) =
     [StoreData (example_entry ''new'')] \<and>
   snd (Add example_storagelib (example_cts\<lparr>awaiter_Await := \<lambda>f. Inl (errors_New ''context canceled'')\<rparr>)
          (example_entry ''new'')) =
     Inl (Errorf_w ''error waiting for Tessera index future and its integration: '' (errors_New ''context canceled'')) \<and>
   storeData example_cts (example_entry ''seen'') = Inr \<lparr>Index = 5, IsDup = True\<rparr> \<and>
   snd (Add example_storagelib (example_cts\<lparr>enableAwaiter := False\<rparr>) (example_entry ''seen'')) =
     snd (Add example_storagelib example_cts (example_entry ''seen''))"
proof -
  let ?new = "\<lparr>Index = 6, IsDup = False\<rparr>"
  let ?failing = "example_cts\<lparr>awaiter_Await := \<lambda>f. Inl (errors_New ''context canceled'')\<rparr>"
  have stored: "storeData example_cts (example_entry ''new'') = Inr ?new"
    by (simp add: example_cts_def example_entry_def)
  have stored_off: "storeData (example_cts\<lparr>enableAwaiter := False\<rparr>) (example_entry ''new'') = Inr ?new"
    by (simp add: example_cts_def example_entry_def)
  have stored_failing: "storeData ?failing (example_entry ''new'') = Inr ?new"
    by (simp add: example_cts_def example_entry_def)
  have stored_dup: "storeData example_cts (example_entry ''seen'') = Inr \<lparr>Index = 5, IsDup = True\<rparr>"
    by (simp add: example_cts_def example_entry_def)
  have enabled: "enableAwaiter example_cts" "calls example_cts = []"
    by (simp_all add: example_cts_def)
  have awaited: "awaiter_Await example_cts (Inr ?new) = Inr (?new, example_checkpoint)"
    by (simp add: example_cts_def)
  have ts: "Timestamp (example_entry ''new'') = 2222"
    by (simp add: example_entry_def)
  note on = Add_new_entry_keeps_timestamp [OF stored, of example_checkpoint example_storagelib]
  note off = Add_new_entry_keeps_timestamp [OF stored_off, of example_checkpoint example_storagelib]
  note failing = Add_new_entry_keeps_timestamp [OF stored_failing, of _ example_storagelib "errors_New ''context canceled''"]
  note dup = Add_new_entry_keeps_timestamp [OF stored_dup, of _ example_storagelib _ False]
  show ?thesis
    using on off failing dup stored stored_dup enabled awaited ts
    by simp
qed

text \<open>A recovery beyond the limit is pushed back at once: the storage is left as it was.\<close>

lemma dedupeFuture_pushback_wraps_ErrPushback:
  "sint (maxDedupeFutureInFlight cts) < sint (dedupeFutureInFlight cts) \<Longrightarrow>
   \<exists>e. dedupeFuture lib cts f = (cts, Inl e) \<and> errors_Is e ErrPushback"
  by (simp add: dedupeFuture_pushback Errorf_w_def ErrPushback_def errors_New_def)

text \<open>
  A recovery is admitted as long as the counter does not exceed the limit, so a fresh counter
  admits one recovery more than the limit.
\<close>

lemma dedupeFuture_admitted_counts:
  "\<not> sint (maxDedupeFutureInFlight cts) < sint (dedupeFutureInFlight cts) \<Longrightarrow>
   dedupeFutureInFlight (fst (dedupeFuture lib cts f)) = dedupeFutureInFlight cts + 1 \<and>
   (\<exists>rest. calls (fst (dedupeFuture lib cts f)) = calls cts @ Await f # rest)"
  by (simp add: dedupeFuture_def Let_def split: sum.split prod.split)

text \<open>
  Claim C7. With the limit \<^verbatim>\<open>maxDedupeFutureInFlight\<close> set to 0 and the counter just reset by a
  tick of \<^verbatim>\<open>resetDedupeFutureInFlightJob\<close>, \<^verbatim>\<open>dedupeFuture\<close> does not push a duplicate back: it
  awaits the future, reads the entry bundle and returns the recovered pair. The test
  \<^verbatim>\<open>Load() > max\<close> admits the call that finds the counter equal to the limit.
\<close>

theorem dedupeFuture_limit_zero_admits_a_duplicate:
  "maxDedupeFutureInFlight (example_cts\<lparr>maxDedupeFutureInFlight := 0\<rparr>) = 0 \<and>
   dedupeFutureInFlight (resetDedupeFutureInFlightJob (example_cts\<lparr>maxDedupeFutureInFlight := 0\<rparr>) [Tick]) = 0 \<and>
   snd (dedupeFuture example_storagelib
          (resetDedupeFutureInFlightJob (example_cts\<lparr>maxDedupeFutureInFlight := 0\<rparr>) [Tick])
          (Inr \<lparr>Index = 5, IsDup = True\<rparr>)) = Inr (5, 1111) \<and>
   calls (fst (dedupeFuture example_storagelib
          (resetDedupeFutureInFlightJob (example_cts\<lparr>maxDedupeFutureInFlight := 0\<rparr>) [Tick])
          (Inr \<lparr>Index = 5, IsDup = True\<rparr>))) =
     [Await (Inr \<lparr>Index = 5, IsDup = True\<rparr>), ReadEntryBundle 0 6]"
  by (simp add: dedupeFuture_def Let_def example_storage_defs)

section \<open>Properties of the issuer stores\<close>

text \<open>
  Whatever follows a record whose object exists already, the S3-backed store returns nil at
  that record and leaves the bucket as it is.
\<close>

lemma aws_AddIssuersIfNotExist_returns_at_existing_key:
  assumes "fault (s3Client s) (keyToObjName lib s (K kv)) = None"
    and "objects (s3Client s) (keyToObjName lib s (K kv)) = Some old"
  shows "aws_AddIssuersIfNotExist lib s (kv # kvs) = (Returns None, s)"
  using assms by (simp add: PutObject_def)

text \<open>
  Claim C2. The S3-backed store, given a record whose key is stored already followed by a
  record whose key is not, returns nil without writing the second record: on
  \<^verbatim>\<open>PreconditionFailed\<close> it leaves the function, where the in-memory store goes on to the
  next record.
\<close>

theorem aws_AddIssuersIfNotExist_stops_at_existing_key:
  "objects (s3Client example_aws) (keyToObjName example_awslib example_aws ''aa'') \<noteq> None \<and>
   objects (s3Client example_aws) (keyToObjName example_awslib example_aws ''bb'') = None \<and>
   example_kvs = [\<lparr>K = ''aa'', V = ''der-a''\<rparr>, \<lparr>K = ''bb'', V = ''der-b''\<rparr>] \<and>
   aws_AddIssuersIfNotExist example_awslib example_aws example_kvs = (Returns None, example_aws)"
  by (simp add: example_awslib_def example_aws_def example_kvs_def keyToObjName_def PutObject_def)

text \<open>
  The in-memory store never fails, leaves every stored value as it is and ends with every
  key of the request stored.
\<close>

lemma inmemory_AddIssuersIfNotExist_writes_every_key:
  "inmemory_AddIssuersIfNotExist s kvs = (r, s') \<Longrightarrow>
     r = None \<and> (\<forall>kv \<in> set kvs. K kv \<in> dom s') \<and> (\<forall>k v. s k = Some v \<longrightarrow> s' k = Some v)"
proof (induction kvs arbitrary: s)
  case Nil
  then show ?case by simp
next
  case (Cons kv kvs)
  show ?case
  proof (cases "s (K kv)")
    case None
    with Cons.prems have "inmemory_AddIssuersIfNotExist (s(K kv \<mapsto> V kv)) kvs = (r, s')"
      by simp
    from Cons.IH [OF this]
    have ih: "r = None" "\<forall>x \<in> set kvs. K x \<in> dom s'"
      "\<And>k v. (s(K kv \<mapsto> V kv)) k = Some v \<Longrightarrow> s' k = Some v"
      by blast+
    have "K kv \<in> dom s'"
      using ih(3) [of "K kv" "V kv"] by auto
    moreover have "s' k = Some v" if "s k = Some v" for k v
      using that None ih(3) [of k v] by (cases "k = K kv") auto
    ultimately show ?thesis
      using ih(1,2) by auto
  next
    case (Some old)
    with Cons.prems have "inmemory_AddIssuersIfNotExist s kvs = (r, s')"
      by simp
    from Cons.IH [OF this] Some show ?thesis
      by auto
  qed
qed

section \<open>Properties of the configuration\<close>

lemma stringToKeyUsage_Any: "stringToKeyUsage ''Any'' = Some ExtKeyUsageAny"
  by (simp add: stringToKeyUsage_def)

lemma stringToKeyUsage_Any_only: "stringToKeyUsage k = Some ExtKeyUsageAny \<Longrightarrow> k = ''Any''"
  by (simp add: stringToKeyUsage_def split: if_splits)

lemma extKeyUsagesLoop_unknown:
  "''Any'' \<notin> set pre \<Longrightarrow> stringToKeyUsage bad = None \<Longrightarrow>
   \<exists>k. extKeyUsagesLoop (pre @ bad # rest) acc = Inl (Errorf_s ''unknown extended key usage: '' k)"
proof (induction pre arbitrary: acc)
  case Nil
  then show ?case by auto
next
  case (Cons k pre)
  show ?case
  proof (cases "stringToKeyUsage k")
    case None
    then show ?thesis by auto
  next
    case (Some ku)
    with Cons.prems have "ku \<noteq> ExtKeyUsageAny"
      using stringToKeyUsage_Any_only [of k] by auto
    with Some Cons.IH [of "acc @ [ku]"] Cons.prems show ?thesis
      by auto
  qed
qed

lemma extKeyUsagesLoop_Any:
  "extKeyUsagesLoop l acc = Inr ekus \<Longrightarrow> ''Any'' \<in> set l \<Longrightarrow> ekus = []"
proof (induction l arbitrary: acc)
  case Nil
  then show ?case by simp
next
  case (Cons k l)
  show ?case
  proof (cases "k = ''Any''")
    case True
    with Cons.prems show ?thesis by (simp add: stringToKeyUsage_Any)
  next
    case False
    with Cons.prems Cons.IH show ?thesis
      by (auto split: option.splits if_splits)
  qed
qed

lemma mentions_unknown_usage:
  "sublist ''unknown extended key usage'' (msg (Errorf_s ''unknown extended key usage: '' k))"
  by (simp add: Errorf_s_def)

lemma Errorf_v_keeps_text: "sublist needle (msg e) \<Longrightarrow> sublist needle (msg (Errorf_v pre e))"
  by (simp add: Errorf_v_def sublist_append)

lemma New_fails_with_newCertValidationOpts:
  "newCertValidationOpts lib cfg = Inl e \<Longrightarrow> \<exists>e'. New lib origin signer cfg = Inl e'"
  by (simp add: New_def split: option.split PublicKey.split)

lemma New_wraps_newCertValidationOpts_error:
  "newCertValidationOpts lib cfg = Inl e \<Longrightarrow> origin \<noteq> [] \<Longrightarrow> Public sg = ECDSA_PublicKey curve \<Longrightarrow>
   New lib origin (Some sg) cfg = Inl (Errorf_v ''invalid cert validation config: '' e)"
  by (simp add: New_def)

text \<open>What is left of \<^verbatim>\<open>newCertValidationOpts\<close> once the roots are loaded and the policy is consistent.\<close>

lemma newCertValidationOpts_after_checks:
  assumes "RootsPemFile cfg \<noteq> []" and "AppendCertsFromPEMFile lib (RootsPemFile cfg) = Inr roots"
    and "\<not> (RejectExpired cfg \<and> RejectUnexpired cfg)" and "\<not> limitBeforeStart cfg"
  shows "newCertValidationOpts lib cfg =
     (case extKeyUsagesLoop (if ExtKeyUsages cfg \<noteq> [] then Split (ExtKeyUsages cfg) CHR '','' else []) [] of
        Inl err \<Rightarrow> Inl err
      | Inr ekus \<Rightarrow>
          if RejectExtensions cfg \<noteq> [] then
            (case parseOIDs lib (Split (RejectExtensions cfg) CHR '','') of
               Inl err \<Rightarrow> Inl (Errorf_v ''failed to parse RejectExtensions: '' err)
             | Inr ids \<Rightarrow>
                 Inr \<lparr> trustedRoots = roots, rejectExpired = RejectExpired cfg,
                       rejectUnexpired = RejectUnexpired cfg, notAfterStart = NotAfterStart cfg,
                       notAfterLimit = NotAfterLimit cfg, extKeyUsages = ekus, rejectExtIds = ids \<rparr>)
          else Inr \<lparr> trustedRoots = roots, rejectExpired = RejectExpired cfg,
                     rejectUnexpired = RejectUnexpired cfg, notAfterStart = NotAfterStart cfg,
                     notAfterLimit = NotAfterLimit cfg, extKeyUsages = ekus, rejectExtIds = [] \<rparr>)"
  using assms(1,2,4) by (simp add: assms(3) newCertValidationOpts_def Let_def split: sum.split)

lemma newCertValidationOpts_success:
  assumes "newCertValidationOpts lib cfg = Inr opts"
  shows "\<exists>roots. RootsPemFile cfg \<noteq> [] \<and> AppendCertsFromPEMFile lib (RootsPemFile cfg) = Inr roots \<and>
          \<not> (RejectExpired cfg \<and> RejectUnexpired cfg) \<and> \<not> limitBeforeStart cfg"
proof (cases "RootsPemFile cfg = []")
  case True
  with assms show ?thesis by (simp add: newCertValidationOpts_def)
next
  case nonempty: False
  show ?thesis
  proof (cases "AppendCertsFromPEMFile lib (RootsPemFile cfg)")
    case (Inl err)
    with assms nonempty show ?thesis by (simp add: newCertValidationOpts_def)
  next
    case (Inr roots)
    show ?thesis
    proof (cases "RejectExpired cfg \<and> RejectUnexpired cfg")
      case True
      with assms nonempty Inr show ?thesis by (simp add: newCertValidationOpts_def)
    next
      case consistent: False
      show ?thesis
      proof (cases "limitBeforeStart cfg")
        case True
        with assms nonempty Inr consistent show ?thesis by (simp add: newCertValidationOpts_def)
      next
        case False
        with nonempty Inr consistent show ?thesis by simp
      qed
    qed
  qed
qed

text \<open>
  Claim C4. A configuration with \<^verbatim>\<open>RejectExpired\<close> and \<^verbatim>\<open>RejectUnexpired\<close> both set, or with both
  ends of the \<^verbatim>\<open>NotAfter\<close> window set and the limit before the start, makes
  \<^verbatim>\<open>newCertValidationOpts\<close> return an error and no options, and so makes \<^verbatim>\<open>New\<close> return an
  error and no configuration, whatever the other fields, the origin and the signer are.
\<close>

theorem newCertValidationOpts_rejects_contradictory_policy:
  assumes "(RejectExpired cfg \<and> RejectUnexpired cfg) \<or>
   (\<exists>start limit. NotAfterStart cfg = Some start \<and> NotAfterLimit cfg = Some limit \<and> limit < start)"
  shows "(\<exists>e. newCertValidationOpts lib cfg = Inl e) \<and> (\<exists>e. New lib origin signer cfg = Inl e)"
proof -
  have "\<exists>e. newCertValidationOpts lib cfg = Inl e"
  proof (cases "newCertValidationOpts lib cfg")
    case (Inl e)
    then show ?thesis by simp
  next
    case (Inr opts)
    from newCertValidationOpts_success [OF this] assms show ?thesis
      by (auto simp: limitBeforeStart_def)
  qed
  then show ?thesis
    using New_fails_with_newCertValidationOpts by blast
qed

text \<open>The theorem at a configuration that rejects everything and at a window 200 to 100.\<close>

theorem newCertValidationOpts_rejects_contradictory_policy_witness:
  "RejectExpired (example_cfg\<lparr>RejectExpired := True, RejectUnexpired := True\<rparr>) \<and>
   RejectUnexpired (example_cfg\<lparr>RejectExpired := True, RejectUnexpired := True\<rparr>) \<and>
   newCertValidationOpts example_golib (example_cfg\<lparr>RejectExpired := True, RejectUnexpired := True\<rparr>)
     = Inl (errors_New ''rejecting all certificates'') \<and>
   New example_golib ''example.com/log'' (Some \<lparr>Public = ECDSA_PublicKey P256\<rparr>)
       (example_cfg\<lparr>RejectExpired := True, RejectUnexpired := True\<rparr>)
     = Inl (Errorf_v ''invalid cert validation config: '' (errors_New ''rejecting all certificates'')) \<and>
   NotAfterStart (example_cfg\<lparr>NotAfterStart := Some 200, NotAfterLimit := Some 100\<rparr>) = Some 200 \<and>
   NotAfterLimit (example_cfg\<lparr>NotAfterStart := Some 200, NotAfterLimit := Some 100\<rparr>) = Some 100 \<and>
   newCertValidationOpts example_golib (example_cfg\<lparr>NotAfterStart := Some 200, NotAfterLimit := Some 100\<rparr>)
     = Inl (errors_New ''limit before start'') \<and>
   New example_golib ''example.com/log'' (Some \<lparr>Public = ECDSA_PublicKey P256\<rparr>)
       (example_cfg\<lparr>NotAfterStart := Some 200, NotAfterLimit := Some 100\<rparr>)
     = Inl (Errorf_v ''invalid cert validation config: '' (errors_New ''limit before start''))"
  using newCertValidationOpts_rejects_contradictory_policy
          [of "example_cfg\<lparr>RejectExpired := True, RejectUnexpired := True\<rparr>" example_golib
              "''example.com/log''" "Some \<lparr>Public = ECDSA_PublicKey P256\<rparr>"]
        newCertValidationOpts_rejects_contradictory_policy
          [of "example_cfg\<lparr>NotAfterStart := Some 200, NotAfterLimit := Some 100\<rparr>" example_golib
              "''example.com/log''" "Some \<lparr>Public = ECDSA_PublicKey P256\<rparr>"]
  by (simp add: example_cfg_def example_golib_def newCertValidationOpts_def New_def limitBeforeStart_def)

text \<open>
  Claim C3, as stated, fails: \<^verbatim>\<open>New\<close> accepts a signer whose key is an ECDSA key on P-384.
\<close>

theorem New_accepts_P384_counterexample:
  "ECDSA_PublicKey P384 \<noteq> ECDSA_PublicKey P256 \<and>
   New example_golib ''example.com/log'' (Some \<lparr>Public = ECDSA_PublicKey P384\<rparr>) example_cfg
     = Inr \<lparr> Origin = ''example.com/log'', Signer = \<lparr>Public = ECDSA_PublicKey P384\<rparr>,
             CertValidationOpts = example_opts \<rparr>"
  by (simp add: New_def newCertValidationOpts_def example_cfg_def example_golib_def example_opts_def
      limitBeforeStart_def)

text \<open>
  Claim C3, amended. \<^verbatim>\<open>New\<close> returns an error for a nil signer and for every signer whose public
  key is not an ECDSA key; a signer with an ECDSA key, on whatever curve, is accepted whenever
  the origin is not empty and the validation options can be built.
\<close>

theorem New_checks_key_type_only:
  "((\<forall>curve. Public sg \<noteq> ECDSA_PublicKey curve) \<longrightarrow> (\<exists>e. New lib origin (Some sg) cfg = Inl e)) \<and>
   (\<exists>e. New lib origin None cfg = Inl e) \<and>
   (Public sg = ECDSA_PublicKey curve \<and> origin \<noteq> [] \<and> newCertValidationOpts lib cfg = Inr opts \<longrightarrow>
      New lib origin (Some sg) cfg = Inr \<lparr> Origin = origin, Signer = sg, CertValidationOpts = opts \<rparr>)"
  by (auto simp: New_def split: PublicKey.splits sum.splits)

text \<open>The theorem at an RSA signer, a nil signer and a P-256 signer.\<close>

theorem New_checks_key_type_only_witness:
  "(\<forall>curve. Public \<lparr>Public = RSA_PublicKey 2048\<rparr> \<noteq> ECDSA_PublicKey curve) \<and>
   New example_golib ''example.com/log'' (Some \<lparr>Public = RSA_PublicKey 2048\<rparr>) example_cfg
     = Inl (Errorf_s ''unsupported key type: '' ''&{...}'') \<and>
   New example_golib ''example.com/log'' None example_cfg = Inl (errors_New ''empty signer'') \<and>
   newCertValidationOpts example_golib example_cfg = Inr example_opts \<and>
   New example_golib ''example.com/log'' (Some \<lparr>Public = ECDSA_PublicKey P256\<rparr>) example_cfg
     = Inr \<lparr> Origin = ''example.com/log'', Signer = \<lparr>Public = ECDSA_PublicKey P256\<rparr>,
             CertValidationOpts = example_opts \<rparr>"
proof -
  have opts: "newCertValidationOpts example_golib example_cfg = Inr example_opts"
    by (simp add: newCertValidationOpts_def example_cfg_def example_golib_def example_opts_def
        limitBeforeStart_def)
  have rsa: "New example_golib ''example.com/log'' (Some \<lparr>Public = RSA_PublicKey 2048\<rparr>) example_cfg
     = Inl (Errorf_s ''unsupported key type: '' ''&{...}'')"
    using New_checks_key_type_only [of "\<lparr>Public = RSA_PublicKey 2048\<rparr>" example_golib "''example.com/log''" example_cfg]
    by (simp add: New_def example_golib_def)
  have nil: "New example_golib ''example.com/log'' None example_cfg = Inl (errors_New ''empty signer'')"
    by (simp add: New_def)
  show ?thesis
    using New_checks_key_type_only [of "\<lparr>Public = ECDSA_PublicKey P256\<rparr>" example_golib "''example.com/log''"
            example_cfg P256 example_opts] opts rsa nil
    by simp
qed

text \<open>
  Claim C5, as stated, fails: in \<open>''Any,TimeStomping''\<close> the entry \<open>''TimeStomping''\<close> is not a
  known usage, yet the options are built, since the loop ends at \<open>''Any''\<close>.
\<close>

theorem ExtKeyUsages_Any_disables_unknown_check_counterexample:
  "''TimeStomping'' \<in> set (Split ''Any,TimeStomping'' CHR '','') \<and>
   stringToKeyUsage ''TimeStomping'' = None \<and>
   newCertValidationOpts example_golib (example_cfg\<lparr>ExtKeyUsages := ''Any,TimeStomping''\<rparr>) = Inr example_opts"
  by (simp add: newCertValidationOpts_def example_cfg_def example_golib_def example_opts_def
      limitBeforeStart_def stringToKeyUsage_def)

text \<open>
  Claim C5, amended. When the roots load and the policy is consistent, a list of usages with
  an unknown entry that no entry \<open>''Any''\<close> precedes makes \<^verbatim>\<open>newCertValidationOpts\<close>, and
  \<^verbatim>\<open>New\<close> for a valid origin and signer, fail with an error whose text contains
  \<open>''unknown extended key usage''\<close>. Whenever the options are built from a list that contains
  \<open>''Any''\<close>, their list of allowed usages is empty.
\<close>

theorem ExtKeyUsages_unknown_entry_or_Any:
  "(RootsPemFile cfg \<noteq> [] \<and> AppendCertsFromPEMFile lib (RootsPemFile cfg) = Inr roots \<and>
    \<not> (RejectExpired cfg \<and> RejectUnexpired cfg) \<and> \<not> limitBeforeStart cfg \<and>
    ExtKeyUsages cfg \<noteq> [] \<and> Split (ExtKeyUsages cfg) CHR '','' = pre @ bad # rest \<and>
    ''Any'' \<notin> set pre \<and> stringToKeyUsage bad = None \<longrightarrow>
      (\<exists>e. newCertValidationOpts lib cfg = Inl e \<and> sublist ''unknown extended key usage'' (msg e)) \<and>
      (origin \<noteq> [] \<and> Public sg = ECDSA_PublicKey curve \<longrightarrow>
         (\<exists>e. New lib origin (Some sg) cfg = Inl e \<and> sublist ''unknown extended key usage'' (msg e)))) \<and>
   (newCertValidationOpts lib cfg = Inr opts \<and> ''Any'' \<in> set (Split (ExtKeyUsages cfg) CHR '','') \<longrightarrow>
      extKeyUsages opts = [])"
proof (intro conjI impI)
  assume a: "RootsPemFile cfg \<noteq> [] \<and> AppendCertsFromPEMFile lib (RootsPemFile cfg) = Inr roots \<and>
    \<not> (RejectExpired cfg \<and> RejectUnexpired cfg) \<and> \<not> limitBeforeStart cfg \<and>
    ExtKeyUsages cfg \<noteq> [] \<and> Split (ExtKeyUsages cfg) CHR '','' = pre @ bad # rest \<and>
    ''Any'' \<notin> set pre \<and> stringToKeyUsage bad = None"
  then obtain k where k: "extKeyUsagesLoop (pre @ bad # rest) [] = Inl (Errorf_s ''unknown extended key usage: '' k)"
    using extKeyUsagesLoop_unknown [of pre bad rest "[]"] by blast
  from a have "newCertValidationOpts lib cfg =
      (case extKeyUsagesLoop (pre @ bad # rest) [] of
         Inl err \<Rightarrow> Inl err
       | Inr ekus \<Rightarrow>
          if RejectExtensions cfg \<noteq> [] then
            (case parseOIDs lib (Split (RejectExtensions cfg) CHR '','') of
               Inl err \<Rightarrow> Inl (Errorf_v ''failed to parse RejectExtensions: '' err)
             | Inr ids \<Rightarrow>
                 Inr \<lparr> trustedRoots = roots, rejectExpired = RejectExpired cfg,
                       rejectUnexpired = RejectUnexpired cfg, notAfterStart = NotAfterStart cfg,
                       notAfterLimit = NotAfterLimit cfg, extKeyUsages = ekus, rejectExtIds = ids \<rparr>)
          else Inr \<lparr> trustedRoots = roots, rejectExpired = RejectExpired cfg,
                     rejectUnexpired = RejectUnexpired cfg, notAfterStart = NotAfterStart cfg,
                     notAfterLimit = NotAfterLimit cfg, extKeyUsages = ekus, rejectExtIds = [] \<rparr>)"
    using newCertValidationOpts_after_checks [of cfg lib roots] by simp
  with k have failed: "newCertValidationOpts lib cfg = Inl (Errorf_s ''unknown extended key usage: '' k)"
    by simp
  show "\<exists>e. newCertValidationOpts lib cfg = Inl e \<and> sublist ''unknown extended key usage'' (msg e)"
    using failed mentions_unknown_usage by blast
  assume "origin \<noteq> [] \<and> Public sg = ECDSA_PublicKey curve"
  with failed have "New lib origin (Some sg) cfg =
      Inl (Errorf_v ''invalid cert validation config: '' (Errorf_s ''unknown extended key usage: '' k))"
    using New_wraps_newCertValidationOpts_error by blast
  moreover have "sublist ''unknown extended key usage''
      (msg (Errorf_v ''invalid cert validation config: '' (Errorf_s ''unknown extended key usage: '' k)))"
    using mentions_unknown_usage [of k] by (rule Errorf_v_keeps_text)
  ultimately show "\<exists>e. New lib origin (Some sg) cfg = Inl e \<and> sublist ''unknown extended key usage'' (msg e)"
    by blast
next
  assume b: "newCertValidationOpts lib cfg = Inr opts \<and> ''Any'' \<in> set (Split (ExtKeyUsages cfg) CHR '','')"
  then have nonempty: "ExtKeyUsages cfg \<noteq> []"
    by auto
  from b newCertValidationOpts_success [of lib cfg opts] obtain roots where
    checks: "RootsPemFile cfg \<noteq> []" "AppendCertsFromPEMFile lib (RootsPemFile cfg) = Inr roots"
      "\<not> (RejectExpired cfg \<and> RejectUnexpired cfg)" "\<not> limitBeforeStart cfg"
    by blast
  note unfolded = newCertValidationOpts_after_checks [OF checks]
  show "extKeyUsages opts = []"
  proof (cases "extKeyUsagesLoop (Split (ExtKeyUsages cfg) CHR '','') []")
    case (Inl err)
    with b unfolded nonempty show ?thesis by simp
  next
    case (Inr ekus)
    with b have "ekus = []"
      using extKeyUsagesLoop_Any by blast
    with b unfolded nonempty Inr show ?thesis
      by (auto split: if_splits sum.splits)
  qed
qed

text \<open>The theorem at \<open>''ClientAuth,TimeStomping''\<close> and at \<open>''ServerAuth,Any''\<close>.\<close>

theorem ExtKeyUsages_unknown_entry_or_Any_witness:
  "Split ''ClientAuth,TimeStomping'' CHR '','' = [''ClientAuth''] @ ''TimeStomping'' # [] \<and>
   ''Any'' \<notin> set [''ClientAuth''] \<and> stringToKeyUsage ''TimeStomping'' = None \<and>
   newCertValidationOpts example_golib (example_cfg\<lparr>ExtKeyUsages := ''ClientAuth,TimeStomping''\<rparr>)
     = Inl (Errorf_s ''unknown extended key usage: '' ''TimeStomping'') \<and>
   (\<exists>e. New example_golib ''example.com/log'' (Some \<lparr>Public = ECDSA_PublicKey P256\<rparr>)
          (example_cfg\<lparr>ExtKeyUsages := ''ClientAuth,TimeStomping''\<rparr>) = Inl e \<and>
        sublist ''unknown extended key usage'' (msg e)) \<and>
   ''Any'' \<in> set (Split ''ServerAuth,Any'' CHR '','') \<and>
   newCertValidationOpts example_golib (example_cfg\<lparr>ExtKeyUsages := ''ServerAuth,Any''\<rparr>) = Inr example_opts \<and>
   extKeyUsages example_opts = []"
proof -
  let ?bad = "example_cfg\<lparr>ExtKeyUsages := ''ClientAuth,TimeStomping''\<rparr>"
  let ?any = "example_cfg\<lparr>ExtKeyUsages := ''ServerAuth,Any''\<rparr>"
  have split: "Split ''ClientAuth,TimeStomping'' CHR '','' = [''ClientAuth''] @ ''TimeStomping'' # []"
    by simp
  have unknown: "''Any'' \<notin> set [''ClientAuth'']" "stringToKeyUsage ''TimeStomping'' = None"
    by (simp_all add: stringToKeyUsage_def)
  have checks: "RootsPemFile ?bad \<noteq> []"
    "AppendCertsFromPEMFile example_golib (RootsPemFile ?bad) = Inr [''root-der'']"
    "\<not> (RejectExpired ?bad \<and> RejectUnexpired ?bad)" "\<not> limitBeforeStart ?bad"
    "ExtKeyUsages ?bad \<noteq> []" "ExtKeyUsages ?bad = ''ClientAuth,TimeStomping''"
    by (simp_all add: example_cfg_def example_golib_def limitBeforeStart_def)
  have failed: "newCertValidationOpts example_golib ?bad
      = Inl (Errorf_s ''unknown extended key usage: '' ''TimeStomping'')"
    by (simp add: newCertValidationOpts_def example_cfg_def example_golib_def limitBeforeStart_def
        stringToKeyUsage_def)
  have any: "''Any'' \<in> set (Split ''ServerAuth,Any'' CHR '','')"
    by simp
  have ok: "newCertValidationOpts example_golib ?any = Inr example_opts"
    by (simp add: newCertValidationOpts_def example_cfg_def example_golib_def example_opts_def
        limitBeforeStart_def stringToKeyUsage_def)
  have "\<exists>e. New example_golib ''example.com/log'' (Some \<lparr>Public = ECDSA_PublicKey P256\<rparr>) ?bad = Inl e \<and>
        sublist ''unknown extended key usage'' (msg e)"
    using ExtKeyUsages_unknown_entry_or_Any
            [of ?bad example_golib "[''root-der'']" "[''ClientAuth'']" "''TimeStomping''" "[]"
                "''example.com/log''" "\<lparr>Public = ECDSA_PublicKey P256\<rparr>" P256]
          split unknown checks
    by simp
  moreover have "extKeyUsages example_opts = []"
    using ExtKeyUsages_unknown_entry_or_Any [of ?any example_golib _ _ _ _ _ _ _ example_opts] any ok
    by (simp add: example_cfg_def)
  ultimately show ?thesis
    using split unknown failed any ok by simp
qed

section \<open>Properties of the issuer cache and of \<^verbatim>\<open>AddIssuerChain\<close>\<close>

lemma cacheMisses_filter: "cacheMisses m kv req = req @ filter (\<lambda>x. K x |\<notin>| m) kv"
  by (induction kv arbitrary: req) simp_all

lemma cacheFill_bounded:
  "fcard m \<le> maxCachedIssuerKeys \<Longrightarrow> fcard (cacheFill m req) \<le> maxCachedIssuerKeys"
proof (induction req arbitrary: m)
  case Nil
  then show ?case by simp
next
  case (Cons kv req)
  show ?case
  proof (cases "maxCachedIssuerKeys \<le> fcard m")
    case True
    with Cons.prems show ?thesis by simp
  next
    case False
    then have "fcard (finsert (K kv) m) \<le> maxCachedIssuerKeys"
      by (simp add: fcard_finsert_if)
    from Cons.IH [OF this] False show ?thesis by simp
  qed
qed

lemma cacheFill_grows: "m |\<subseteq>| cacheFill m req"
proof (induction req arbitrary: m)
  case Nil
  show ?case by simp
next
  case (Cons kv req)
  have "m |\<subseteq>| finsert (K kv) m" by auto
  also have "\<dots> |\<subseteq>| cacheFill (finsert (K kv) m) req" by (rule Cons.IH)
  finally show ?case by simp
qed

lemma cacheFill_full: "maxCachedIssuerKeys \<le> fcard m \<Longrightarrow> cacheFill m req = m"
  by (cases req) simp_all

lemma cacheFill_from_request: "k |\<in>| cacheFill m req \<Longrightarrow> k |\<in>| m \<or> k \<in> K ` set req"
  by (induction req arbitrary: m) (auto split: if_splits)

lemma cachedStoreIssuers_call:
  "s b (filter (\<lambda>x. K x |\<notin>| m) kv) = (r, b') \<Longrightarrow>
   cachedStoreIssuers s (m, b) kv =
     (case r of
        Some err \<Rightarrow>
          (Some (Errorf_v ''AddIssuersIfNotExist()s: error storing issuer data in the underlying IssuerStorage: '' err),
           (m, b'))
      | None \<Rightarrow> (None, (cacheFill m (filter (\<lambda>x. K x |\<notin>| m) kv), b')))"
  by (simp add: cachedStoreIssuers_def cacheMisses_filter split: option.split)

lemma cachedStoreIssuers_cache_bounded:
  assumes "fcard (fst st) \<le> maxCachedIssuerKeys"
  shows "fcard (fst (snd (cachedStoreIssuers s st kv))) \<le> maxCachedIssuerKeys"
proof -
  obtain m b where st: "st = (m, b)" by (cases st)
  obtain r b' where call: "s b (filter (\<lambda>x. K x |\<notin>| m) kv) = (r, b')" by (cases "s b (filter (\<lambda>x. K x |\<notin>| m) kv)")
  show ?thesis
    using assms cacheFill_bounded [of m] by (cases r) (simp_all add: st cachedStoreIssuers_call [of s b m kv r b', OF call])
qed

lemma callsInTurn_cache_bounded:
  "fcard (fst st) \<le> maxCachedIssuerKeys \<Longrightarrow>
   fcard (fst (callsInTurn (cachedStoreIssuers s) st batches)) \<le> maxCachedIssuerKeys"
  by (induction batches arbitrary: st) (simp_all add: cachedStoreIssuers_cache_bounded)

text \<open>
  A call that runs alone on a cache of at most \<open>2^20\<close> keys hands the store behind it exactly
  the records whose keys are not cached, whether the cache is full or not, and leaves the store
  as that request left it; the cache only grows, stays within \<open>2^20\<close> keys, and is left as it
  was once it is full. Calls that follow one another from the empty cache therefore never
  hold more than \<open>2^20\<close> keys.
\<close>

lemma cachedStoreIssuers_alone_bounded_always_forwards:
  assumes "fcard m \<le> maxCachedIssuerKeys"
  shows "(\<exists>r b' m'.
            s b (filter (\<lambda>x. K x |\<notin>| m) kv) = (r, b') \<and>
            snd (cachedStoreIssuers s (m, b) kv) = (m', b') \<and>
            (fst (cachedStoreIssuers s (m, b) kv) = None \<longleftrightarrow> r = None) \<and>
            fcard m' \<le> maxCachedIssuerKeys \<and> m |\<subseteq>| m' \<and>
            (maxCachedIssuerKeys \<le> fcard m \<longrightarrow> m' = m)) \<and>
         fcard (fst (callsInTurn (cachedStoreIssuers s) ({||}, b) batches)) \<le> maxCachedIssuerKeys"
proof
  obtain r b' where call: "s b (filter (\<lambda>x. K x |\<notin>| m) kv) = (r, b')"
    by (cases "s b (filter (\<lambda>x. K x |\<notin>| m) kv)")
  show "\<exists>r b' m'.
            s b (filter (\<lambda>x. K x |\<notin>| m) kv) = (r, b') \<and>
            snd (cachedStoreIssuers s (m, b) kv) = (m', b') \<and>
            (fst (cachedStoreIssuers s (m, b) kv) = None \<longleftrightarrow> r = None) \<and>
            fcard m' \<le> maxCachedIssuerKeys \<and> m |\<subseteq>| m' \<and>
            (maxCachedIssuerKeys \<le> fcard m \<longrightarrow> m' = m)"
  proof (cases r)
    case None
    with call assms show ?thesis
      by (simp add: cachedStoreIssuers_call [of s b m kv r b', OF call] cacheFill_bounded cacheFill_grows cacheFill_full)
  next
    case (Some err)
    with call assms show ?thesis
      by (simp add: cachedStoreIssuers_call [of s b m kv r b', OF call])
  qed
  show "fcard (fst (callsInTurn (cachedStoreIssuers s) ({||}, b) batches)) \<le> maxCachedIssuerKeys"
    by (rule callsInTurn_cache_bounded) (simp add: fcard_fempty)
qed

text \<open>
  The step-by-step closure, when one goroutine takes every step, does what
  \<open>cachedStoreIssuers\<close> does.
\<close>

lemma concurrentCalls_append:
  "concurrentCalls s st (xs @ ys) = concurrentCalls s (concurrentCalls s st xs) ys"
proof (induction xs arbitrary: st)
  case Nil
  show ?case by simp
next
  case (Cons i xs)
  obtain shared gs where st: "st = (shared, gs)"
    by (cases st)
  show ?case
    by (simp add: st Cons.IH split: prod.split)
qed

lemma alone_returned:
  "concurrentCalls s (shared, [Return r]) (replicate n 0) = (shared, [Return r])"
  by (induction n) (cases shared, simp)+

lemma alone_lookup:
  "concurrentCalls s ((m, b), [Lookup kvs req]) (replicate (length kvs) 0)
     = ((m, b), [Lookup [] (cacheMisses m kvs req)])"
  by (induction kvs arbitrary: req) simp_all

lemma alone_fill:
  "concurrentCalls s ((m, b), [Fill req]) (replicate (2 * length req + 1) 0)
     = ((cacheFill m req, b), [Return None])"
proof (induction req arbitrary: m)
  case Nil
  show ?case by simp
next
  case (Cons kv req)
  show ?case
  proof (cases "maxCachedIssuerKeys \<le> fcard m")
    case True
    then show ?thesis
      using alone_returned [of s "(m, b)" None "2 * length req + 2"] by simp
  next
    case False
    then show ?thesis
      using Cons.IH [of "finsert (K kv) m"] by simp
  qed
qed

lemma alone_fill_enough:
  assumes "2 * length req + 1 \<le> n"
  shows "concurrentCalls s ((m, b), [Fill req]) (replicate n 0) = ((cacheFill m req, b), [Return None])"
proof -
  from assms obtain k where n: "n = (2 * length req + 1) + k"
    using le_Suc_ex by blast
  have "replicate n (0 :: nat) = replicate (2 * length req + 1) 0 @ replicate k 0"
    unfolding n by (rule replicate_add)
  then show ?thesis
    by (simp only: concurrentCalls_append alone_fill alone_returned)
qed

lemma length_cacheMisses: "length (cacheMisses m kvs []) \<le> length kvs"
  by (simp add: cacheMisses_filter)

lemma cachedStoreIssuers_is_a_call_alone:
  "concurrentCalls s ((m, b), [Lookup kv []]) (replicate (3 * length kv + 2) 0)
     = (snd (cachedStoreIssuers s (m, b) kv), [Return (fst (cachedStoreIssuers s (m, b) kv))])"
proof -
  let ?req = "cacheMisses m kv []"
  have "3 * length kv + 2 = length kv + Suc (2 * length kv + 1)"
    by simp
  then have schedule: "replicate (3 * length kv + 2) (0 :: nat)
      = replicate (length kv) 0 @ 0 # replicate (2 * length kv + 1) 0"
    by (simp only: replicate_add replicate_Suc)
  have enough: "2 * length ?req + 1 \<le> 2 * length kv + 1"
    using length_cacheMisses [of m kv] by simp
  obtain r b' where backend: "s b ?req = (r, b')"
    by (cases "s b ?req")
  have looked: "concurrentCalls s ((m, b), [Lookup kv []]) (replicate (3 * length kv + 2) 0)
      = concurrentCalls s ((m, b), [Lookup [] ?req]) (0 # replicate (2 * length kv + 1) 0)"
    by (simp only: schedule concurrentCalls_append alone_lookup)
  show ?thesis
  proof (cases r)
    case None
    with backend have "concurrentCalls s ((m, b), [Lookup [] ?req]) (0 # replicate (2 * length kv + 1) 0)
        = concurrentCalls s ((m, b'), [Fill ?req]) (replicate (2 * length kv + 1) 0)"
      by simp
    with None backend show ?thesis
      by (simp only: looked alone_fill_enough [OF enough]) (simp add: cachedStoreIssuers_def)
  next
    case (Some err)
    with backend have "concurrentCalls s ((m, b), [Lookup [] ?req]) (0 # replicate (2 * length kv + 1) 0)
        = concurrentCalls s ((m, b'),
            [Return (Some (Errorf_v ''AddIssuersIfNotExist()s: error storing issuer data in the underlying IssuerStorage: '' err))])
            (replicate (2 * length kv + 1) 0)"
      by simp
    with Some backend show ?thesis
      by (simp only: looked alone_returned) (simp add: cachedStoreIssuers_def)
  qed
qed

text \<open>
  However the steps of the goroutines follow one another, the cache stays below \<open>2^20\<close> plus
  the number of calls in progress.
\<close>

lemma inserting_le_length: "sum_list (map inserting gs) \<le> length gs"
  by (induction gs) (auto simp: inserting_def split: closure_state.splits)

lemma inserting_update:
  assumes "i < length gs"
  shows "sum_list (map inserting (gs[i := g])) = sum_list (map inserting gs) + inserting g - inserting (gs ! i)"
  using assms by (simp add: map_update sum_list_update)

lemma inserting_nth_le:
  "i < length gs \<Longrightarrow> inserting (gs ! i) \<le> sum_list (map inserting gs)"
  using elem_le_sum_list [of i "map inserting gs"] by simp

lemma closureStep_withinOvershoot:
  assumes inv: "withinOvershoot ((m, b), gs)" and i: "i < length gs"
    and step: "closureStep s (m, b) (gs ! i) = ((m', b'), g')"
  shows "withinOvershoot ((m', b'), gs[i := g'])"
proof (cases "gs ! i")
  case (Lookup kvs req)
  with step have "m' = m" "inserting g' = 0"
    by (cases kvs; auto simp: inserting_def split: prod.splits option.splits if_splits)+
  with inv i Lookup show ?thesis
    by (simp add: withinOvershoot_def inserting_update inserting_def)
next
  case (Fill req)
  show ?thesis
  proof (cases "req = [] \<or> maxCachedIssuerKeys \<le> fcard m")
    case True
    with step Fill have "m' = m" "inserting g' = 0"
      by (cases req; auto simp: inserting_def)+
    with inv i Fill show ?thesis
      by (simp add: withinOvershoot_def inserting_update inserting_def)
  next
    case False
    with step Fill have "m' = m"
      by (cases req) auto
    moreover from False have "fcard m < maxCachedIssuerKeys"
      by simp
    moreover have "sum_list (map inserting (gs[i := g'])) \<le> length gs"
      using inserting_le_length [of "gs[i := g']"] by simp
    ultimately show ?thesis
      by (simp add: withinOvershoot_def)
  qed
next
  case (Insert kv req)
  with step have m': "m' = finsert (K kv) m" and g': "inserting g' = 0"
    by (auto simp: inserting_def)
  have "fcard m' \<le> Suc (fcard m)"
    by (simp add: m' fcard_finsert_if)
  moreover have "inserting (gs ! i) = 1"
    by (simp add: Insert inserting_def)
  moreover from this have "1 \<le> sum_list (map inserting gs)"
    using inserting_nth_le [OF i] by simp
  ultimately show ?thesis
    using inv i g' by (simp add: withinOvershoot_def inserting_update)
next
  case (Return r)
  with step have "m' = m" "g' = gs ! i"
    by auto
  with inv i show ?thesis
    by (simp add: withinOvershoot_def)
qed

lemma concurrentCalls_withinOvershoot:
  "withinOvershoot st \<Longrightarrow> withinOvershoot (concurrentCalls s st schedule)"
proof (induction schedule arbitrary: st)
  case Nil
  then show ?case by simp
next
  case (Cons i schedule)
  obtain m b gs where st: "st = ((m, b), gs)"
    by (cases st) auto
  show ?case
  proof (cases "i < length gs")
    case True
    obtain m' b' g' where step: "closureStep s (m, b) (gs ! i) = ((m', b'), g')"
      by (cases "closureStep s (m, b) (gs ! i)") auto
    from Cons.prems have "withinOvershoot ((m', b'), gs[i := g'])"
      unfolding st using True step by (rule closureStep_withinOvershoot)
    from Cons.IH [OF this] True step show ?thesis
      by (simp add: st)
  next
    case False
    with Cons.IH [OF Cons.prems] show ?thesis
      by (simp add: st)
  qed
qed

lemma concurrentCalls_cache_bound:
  assumes "fcard m \<le> maxCachedIssuerKeys" and "batches \<noteq> []"
  shows "fcard (fst (fst (concurrentCalls s ((m, b), map (\<lambda>kv. Lookup kv []) batches) schedule)))
           < maxCachedIssuerKeys + length batches"
proof -
  have zero: "sum_list (map inserting (map (\<lambda>kv. Lookup kv []) batches)) = 0"
    by (induction batches) (simp_all add: inserting_def)
  from assms have "0 < length batches"
    by simp
  with assms(1) have "withinOvershoot ((m, b), map (\<lambda>kv. Lookup kv []) batches)"
    unfolding withinOvershoot_def fst_conv snd_conv zero length_map by linarith
  from concurrentCalls_withinOvershoot [OF this, of s schedule]
  have "fcard (fst (fst (concurrentCalls s ((m, b), map (\<lambda>kv. Lookup kv []) batches) schedule)))
      < maxCachedIssuerKeys + length (snd (concurrentCalls s ((m, b), map (\<lambda>kv. Lookup kv []) batches) schedule))"
    by (simp add: withinOvershoot_def)
  moreover have "length (snd (concurrentCalls s st schedule)) = length (snd st)" for st
  proof (induction schedule arbitrary: st)
    case Nil
    show ?case by simp
  next
    case (Cons i schedule)
    show ?case
      by (cases st) (simp add: Cons.IH split: prod.split)
  qed
  ultimately show ?thesis
    by simp
qed

text \<open>The cache that is one key short of full, and two keys it does not hold.\<close>

lemma maxCachedIssuerKeys_pos: "0 < maxCachedIssuerKeys"
  by (simp add: maxCachedIssuerKeys_def)

lemma fcard_example_cache: "fcard example_cache = maxCachedIssuerKeys - 1"
proof -
  have "inj_on (\<lambda>n. replicate n CHR ''k'') {0..<maxCachedIssuerKeys - 1}"
    by (rule inj_onI) (metis length_replicate)
  then have "card ((\<lambda>n. replicate n CHR ''k'') ` {0..<maxCachedIssuerKeys - 1}) = maxCachedIssuerKeys - 1"
    by (simp add: card_image)
  then show ?thesis
    by (simp add: example_cache_def fcard.rep_eq fset_of_list.rep_eq)
qed

lemma example_cache_keys: "k |\<in>| example_cache \<Longrightarrow> set k \<subseteq> {CHR ''k''}"
  by (auto simp: example_cache_def fset_of_list_elem)

lemma example_cache_misses: "''aa'' |\<notin>| example_cache \<and> ''bb'' |\<notin>| example_cache"
  using example_cache_keys [of "''aa''"] example_cache_keys [of "''bb''"] by auto

lemma example_cache_not_full: "\<not> maxCachedIssuerKeys \<le> fcard example_cache"
  using maxCachedIssuerKeys_pos by (simp add: fcard_example_cache)

text \<open>
  Claim C8. Two calls of the closure run at the same time on a cache of \<open>2^20 - 1\<close> keys,
  each with one record whose key is not cached. Each looks its key up and calls the store; then
  both test \<^verbatim>\<open>len(m)\<close> before either inserts, both find room, both insert, and the cache ends
  with \<open>2^20 + 1\<close> keys, one more than \<^verbatim>\<open>maxCachedIssuerKeys\<close>. The test of \<^verbatim>\<open>len(m)\<close> is
  made with no lock held, so it is not one step with the insertion that follows it.
\<close>

theorem concurrent_calls_exceed_maxCachedIssuerKeys:
  "maxCachedIssuerKeys = 2 ^ 20 \<and>
   fcard example_cache = maxCachedIssuerKeys - 1 \<and>
   concurrentCalls inmemory_AddIssuersIfNotExist
     ((example_cache, Map.empty),
      [Lookup [\<lparr>K = ''aa'', V = ''der-a''\<rparr>] [], Lookup [\<lparr>K = ''bb'', V = ''der-b''\<rparr>] []])
     [0, 1, 0, 1, 0, 1, 0, 1, 0, 1]
   = ((finsert ''bb'' (finsert ''aa'' example_cache), [''aa'' \<mapsto> ''der-a'', ''bb'' \<mapsto> ''der-b'']),
      [Return None, Return None]) \<and>
   fcard (finsert ''bb'' (finsert ''aa'' example_cache)) = maxCachedIssuerKeys + 1"
proof -
  have size: "fcard (finsert ''bb'' (finsert ''aa'' example_cache)) = maxCachedIssuerKeys + 1"
    using example_cache_misses maxCachedIssuerKeys_pos
    by (simp add: fcard_finsert_disjoint fcard_example_cache)
  have run: "concurrentCalls inmemory_AddIssuersIfNotExist
     ((example_cache, Map.empty),
      [Lookup [\<lparr>K = ''aa'', V = ''der-a''\<rparr>] [], Lookup [\<lparr>K = ''bb'', V = ''der-b''\<rparr>] []])
     [0, 1, 0, 1, 0, 1, 0, 1, 0, 1]
   = ((finsert ''bb'' (finsert ''aa'' example_cache), [''aa'' \<mapsto> ''der-a'', ''bb'' \<mapsto> ''der-b'']),
      [Return None, Return None])"
    using example_cache_misses example_cache_not_full
    by simp
  from size run maxCachedIssuerKeys_def show ?thesis
    by (simp only: fcard_example_cache simp_thms)
qed

lemma cachedStoreIssuers_error_keeps_cache:
  "s b (cacheMisses m kv []) = (Some err, b') \<Longrightarrow>
   cachedStoreIssuers s (m, b) kv =
     (Some (Errorf_v ''AddIssuersIfNotExist()s: error storing issuer data in the underlying IssuerStorage: '' err),
      (m, b'))"
  by (simp add: cachedStoreIssuers_def)

lemma cachedAfterSuccess_step:
  assumes "cachedAfterSuccess st"
  shows "cachedAfterSuccess (snd (cachedStoreIssuers (logged s) st kv))"
proof -
  obtain m b log where st: "st = (m, (b, log))"
    by (cases st) auto
  let ?req = "filter (\<lambda>x. K x |\<notin>| m) kv"
  obtain r b' where backend: "s b ?req = (r, b')"
    by (cases "s b ?req")
  then have call: "logged s (b, log) ?req = (r, (b', log @ [(?req, r)]))"
    by (simp add: logged_def)
  note unfolded = cachedStoreIssuers_call [of "logged s" "(b, log)" m kv r "(b', log @ [(?req, r)])", OF call]
  show ?thesis
  proof (cases r)
    case None
    have "\<exists>req. (req, None) \<in> set (log @ [(?req, None)]) \<and> k \<in> K ` set req"
      if "k |\<in>| cacheFill m ?req" for k
    proof -
      from that cacheFill_from_request [of k m ?req] consider "k |\<in>| m" | "k \<in> K ` set ?req"
        by blast
      then show ?thesis
      proof cases
        case 1
        with assms obtain req where "(req, None) \<in> set log" "k \<in> K ` set req"
          by (auto simp: cachedAfterSuccess_def st)
        then show ?thesis by auto
      next
        case 2
        then show ?thesis by auto
      qed
    qed
    with None show ?thesis
      by (simp add: st unfolded cachedAfterSuccess_def)
  next
    case (Some err)
    with assms show ?thesis
      by (auto simp: st unfolded cachedAfterSuccess_def)
  qed
qed

lemma cachedAfterSuccess_run:
  "cachedAfterSuccess st \<Longrightarrow> cachedAfterSuccess (callsInTurn (cachedStoreIssuers (logged s)) st batches)"
  by (induction batches arbitrary: st) (simp_all add: cachedAfterSuccess_step)

text \<open>
  In front of the in-memory store, which writes every key it is asked to, every cached key is
  a key of the store.
\<close>

lemma cachedStoreIssuers_inmemory_step:
  assumes "\<forall>k. k |\<in>| fst st \<longrightarrow> k \<in> dom (snd st)"
  shows "\<forall>k. k |\<in>| fst (snd (cachedStoreIssuers inmemory_AddIssuersIfNotExist st kv)) \<longrightarrow>
             k \<in> dom (snd (snd (cachedStoreIssuers inmemory_AddIssuersIfNotExist st kv)))"
proof -
  obtain m b where st: "st = (m, b)"
    by (cases st)
  let ?req = "filter (\<lambda>x. K x |\<notin>| m) kv"
  obtain r b' where backend: "inmemory_AddIssuersIfNotExist b ?req = (r, b')"
    by (cases "inmemory_AddIssuersIfNotExist b ?req")
  from inmemory_AddIssuersIfNotExist_writes_every_key [OF backend]
  have written: "r = None" "\<forall>x \<in> set ?req. K x \<in> dom b'" "\<And>k v. b k = Some v \<Longrightarrow> b' k = Some v"
    by blast+
  note unfolded = cachedStoreIssuers_call [of inmemory_AddIssuersIfNotExist b m kv r b', OF backend]
  have "k \<in> dom b'" if "k |\<in>| cacheFill m ?req" for k
  proof -
    from that cacheFill_from_request [of k m ?req] consider "k |\<in>| m" | "k \<in> K ` set ?req"
      by blast
    then show ?thesis
    proof cases
      case 1
      with assms st obtain v where "b k = Some v" by auto
      then show ?thesis using written(3) by blast
    next
      case 2
      then show ?thesis using written(2) by blast
    qed
  qed
  with written(1) show ?thesis
    by (simp add: st unfolded)
qed

lemma cachedStoreIssuers_inmemory_run:
  "\<forall>k. k |\<in>| fst st \<longrightarrow> k \<in> dom (snd st) \<Longrightarrow>
   \<forall>k. k |\<in>| fst (callsInTurn (cachedStoreIssuers inmemory_AddIssuersIfNotExist) st batches) \<longrightarrow>
       k \<in> dom (snd (callsInTurn (cachedStoreIssuers inmemory_AddIssuersIfNotExist) st batches))"
proof (induction batches arbitrary: st)
  case Nil
  then show ?case by simp
next
  case (Cons kv batches)
  from Cons.IH [OF cachedStoreIssuers_inmemory_step [OF Cons.prems, of kv]] show ?case
    by simp
qed

text \<open>
  When the store behind the cache answers with an error, the closure returns an error and
  leaves the cache as it was, so the same keys are requested again by the next call. In every
  run of calls from the empty cache, each cached key belongs to a request that the store
  answered with nil; in front of the in-memory store each cached key is stored.
\<close>

lemma cachedStoreIssuers_caches_after_nil_answer:
  "(s b (cacheMisses m kv []) = (Some err, b') \<longrightarrow>
      cachedStoreIssuers s (m, b) kv =
        (Some (Errorf_v ''AddIssuersIfNotExist()s: error storing issuer data in the underlying IssuerStorage: '' err),
         (m, b'))) \<and>
   (k |\<in>| fst (callsInTurn (cachedStoreIssuers (logged s)) ({||}, (b, [])) batches) \<longrightarrow>
      (\<exists>req. (req, None) \<in> set (snd (snd (callsInTurn (cachedStoreIssuers (logged s)) ({||}, (b, [])) batches))) \<and>
             k \<in> K ` set req)) \<and>
   (k |\<in>| fst (callsInTurn (cachedStoreIssuers inmemory_AddIssuersIfNotExist) ({||}, store) batches) \<longrightarrow>
      k \<in> dom (snd (callsInTurn (cachedStoreIssuers inmemory_AddIssuersIfNotExist) ({||}, store) batches)))"
proof (intro conjI)
  show "s b (cacheMisses m kv []) = (Some err, b') \<longrightarrow>
      cachedStoreIssuers s (m, b) kv =
        (Some (Errorf_v ''AddIssuersIfNotExist()s: error storing issuer data in the underlying IssuerStorage: '' err),
         (m, b'))"
    by (simp add: cachedStoreIssuers_error_keeps_cache)
  have "cachedAfterSuccess (({||}, (b, [])) :: string fset \<times> 'a \<times> (KV list \<times> error option) list)"
    by (simp add: cachedAfterSuccess_def)
  then have "cachedAfterSuccess (callsInTurn (cachedStoreIssuers (logged s)) ({||}, (b, [])) batches)"
    by (rule cachedAfterSuccess_run)
  then show "k |\<in>| fst (callsInTurn (cachedStoreIssuers (logged s)) ({||}, (b, [])) batches) \<longrightarrow>
      (\<exists>req. (req, None) \<in> set (snd (snd (callsInTurn (cachedStoreIssuers (logged s)) ({||}, (b, [])) batches))) \<and>
             k \<in> K ` set req)"
    by (simp add: cachedAfterSuccess_def)
  have "\<forall>k. k |\<in>| fst (({||}, store) :: string fset \<times> (string \<rightharpoonup> bytes)) \<longrightarrow> k \<in> dom (snd ({||}, store))"
    by simp
  from cachedStoreIssuers_inmemory_run [OF this, of batches]
  show "k |\<in>| fst (callsInTurn (cachedStoreIssuers inmemory_AddIssuersIfNotExist) ({||}, store) batches) \<longrightarrow>
      k \<in> dom (snd (callsInTurn (cachedStoreIssuers inmemory_AddIssuersIfNotExist) ({||}, store) batches))"
    by blast
qed

text \<open>
  Claim C10. Behind the cache, the S3-backed store whose bucket holds the issuer \<open>''aa''\<close>
  answers the request for \<open>''aa''\<close> and \<open>''bb''\<close> with nil at \<open>''aa''\<close> and never writes
  \<open>''bb''\<close>; the closure caches both keys on that answer. The next call for \<open>''bb''\<close> finds the
  key cached and hands the store an empty request: the key is cached, was never written, and
  is not written by a retry.
\<close>

theorem cachedStoreIssuers_caches_key_the_S3_store_never_wrote:
  "objects (s3Client example_aws) (keyToObjName example_awslib example_aws ''bb'') = None \<and>
   example_kvs = [\<lparr>K = ''aa'', V = ''der-a''\<rparr>, \<lparr>K = ''bb'', V = ''der-b''\<rparr>] \<and>
   cachedStoreIssuers (aws_IssuerStorage example_awslib) ({||}, example_aws) example_kvs
     = (None, ({|''aa'', ''bb''|}, example_aws)) \<and>
   cachedStoreIssuers (logged (aws_IssuerStorage example_awslib))
       ({|''aa'', ''bb''|}, (example_aws, [])) [\<lparr>K = ''bb'', V = ''der-b''\<rparr>]
     = (None, ({|''aa'', ''bb''|}, (example_aws, [([], None)])))"
proof -
  have store: "aws_IssuerStorage example_awslib example_aws example_kvs = (None, example_aws)"
    by (simp add: aws_IssuerStorage_def example_awslib_def example_aws_def example_kvs_def
        keyToObjName_def PutObject_def)
  have misses: "cacheMisses {||} example_kvs [] = example_kvs"
    by (simp add: example_kvs_def)
  have fill: "cacheFill {||} example_kvs = {|''aa'', ''bb''|}"
    by (simp add: example_kvs_def maxCachedIssuerKeys_def fcard_finsert_if fcard_fempty finsert_commute)
  have first: "cachedStoreIssuers (aws_IssuerStorage example_awslib) ({||}, example_aws) example_kvs
     = (None, ({|''aa'', ''bb''|}, example_aws))"
    by (simp add: cachedStoreIssuers_def misses store fill)
  have retry: "cachedStoreIssuers (logged (aws_IssuerStorage example_awslib))
       ({|''aa'', ''bb''|}, (example_aws, [])) [\<lparr>K = ''bb'', V = ''der-b''\<rparr>]
     = (None, ({|''aa'', ''bb''|}, (example_aws, [([], None)])))"
    by (simp add: cachedStoreIssuers_def logged_def aws_IssuerStorage_def)
  have absent: "objects (s3Client example_aws) (keyToObjName example_awslib example_aws ''bb'') = None"
    by (simp add: example_awslib_def example_aws_def keyToObjName_def)
  from absent first retry show ?thesis
    by (simp add: example_kvs_def)
qed

lemma issuerChainKVs_map:
  "issuerChainKVs lib chain kvs =
     kvs @ map (\<lambda>c. \<lparr>K = EncodeToString (Sum256 lib (Raw c)), V = Raw c\<rparr>) chain"
  by (induction chain arbitrary: kvs) (simp_all add: Let_def)

lemma hextable_digit: "n < 16 \<Longrightarrow> hextable ! n \<in> set hextable"
  by (rule nth_mem) (simp add: hextable_def)

lemma of_char_div_16: "(of_char b :: nat) div 16 < 16"
proof -
  have "(of_char b :: nat) < 256" by simp
  then show ?thesis by arith
qed

lemma EncodeToString_lowercase_hex:
  "length (EncodeToString src) = 2 * length src \<and> set (EncodeToString src) \<subseteq> set ''0123456789abcdef''"
proof (induction src)
  case Nil
  show ?case by simp
next
  case (Cons b src)
  have "hextable ! ((of_char b :: nat) div 16) \<in> set hextable"
    by (rule hextable_digit) (rule of_char_div_16)
  moreover have "hextable ! ((of_char b :: nat) mod 16) \<in> set hextable"
    by (rule hextable_digit) simp
  ultimately show ?case
    using Cons.IH by (simp add: hextable_def)
qed

text \<open>
  Claim C9. The batch that \<^verbatim>\<open>AddIssuerChain\<close> hands to \<^verbatim>\<open>storeIssuers\<close> has one record for each
  certificate of the chain, in the order of the chain: the key is the hexadecimal encoding, in
  lowercase digits and two per byte, of the SHA-256 digest of the certificate's DER bytes, and
  the value is those bytes. A logging store shows the batch as the one request it was given.
\<close>

theorem AddIssuerChain_hands_over_one_record_per_certificate:
  "issuerChainKVs lib chain [] = map (\<lambda>c. \<lparr>K = EncodeToString (Sum256 lib (Raw c)), V = Raw c\<rparr>) chain \<and>
   snd (AddIssuerChain lib (logged s) (b, log) chain) =
     (snd (s b (issuerChainKVs lib chain [])),
      log @ [(issuerChainKVs lib chain [], fst (s b (issuerChainKVs lib chain [])))]) \<and>
   (fst (AddIssuerChain lib (logged s) (b, log) chain) = None \<longleftrightarrow> fst (s b (issuerChainKVs lib chain [])) = None) \<and>
   (\<forall>c \<in> set chain.
      length (EncodeToString (Sum256 lib (Raw c))) = 2 * length (Sum256 lib (Raw c)) \<and>
      set (EncodeToString (Sum256 lib (Raw c))) \<subseteq> set ''0123456789abcdef'')"
proof (intro conjI)
  show "issuerChainKVs lib chain [] = map (\<lambda>c. \<lparr>K = EncodeToString (Sum256 lib (Raw c)), V = Raw c\<rparr>) chain"
    by (simp add: issuerChainKVs_map)
  obtain r b' where call: "s b (issuerChainKVs lib chain []) = (r, b')"
    by (cases "s b (issuerChainKVs lib chain [])")
  then show "snd (AddIssuerChain lib (logged s) (b, log) chain) =
     (snd (s b (issuerChainKVs lib chain [])),
      log @ [(issuerChainKVs lib chain [], fst (s b (issuerChainKVs lib chain [])))])"
    by (cases r) (simp_all add: AddIssuerChain_def logged_def)
  from call show "fst (AddIssuerChain lib (logged s) (b, log) chain) = None \<longleftrightarrow> fst (s b (issuerChainKVs lib chain [])) = None"
    by (cases r) (simp_all add: AddIssuerChain_def logged_def)
  show "\<forall>c \<in> set chain.
      length (EncodeToString (Sum256 lib (Raw c))) = 2 * length (Sum256 lib (Raw c)) \<and>
      set (EncodeToString (Sum256 lib (Raw c))) \<subseteq> set ''0123456789abcdef''"
    using EncodeToString_lowercase_hex by blast
qed

text \<open>The theorem at a chain of two certificates in front of an empty in-memory store.\<close>

theorem AddIssuerChain_hands_over_one_record_per_certificate_witness:
  "\<lparr>Raw = [CHR 0xFF, CHR 0x0A]\<rparr> \<in> set [\<lparr>Raw = ''ab''\<rparr>, \<lparr>Raw = [CHR 0xFF, CHR 0x0A]\<rparr>] \<and>
   EncodeToString (Sum256 example_storagelib [CHR 0xFF, CHR 0x0A])
     = ''ff0a000000000000000000000000000000000000000000000000000000000000'' \<and>
   snd (snd (AddIssuerChain example_storagelib (logged inmemory_AddIssuersIfNotExist) (Map.empty, [])
          [\<lparr>Raw = ''ab''\<rparr>, \<lparr>Raw = [CHR 0xFF, CHR 0x0A]\<rparr>])) =
     [([\<lparr>K = ''6162000000000000000000000000000000000000000000000000000000000000'', V = ''ab''\<rparr>,
        \<lparr>K = ''ff0a000000000000000000000000000000000000000000000000000000000000'', V = [CHR 0xFF, CHR 0x0A]\<rparr>],
       None)]"
proof -
  let ?chain = "[\<lparr>Raw = ''ab''\<rparr>, \<lparr>Raw = [CHR 0xFF, CHR 0x0A]\<rparr>]"
  note at_chain = AddIssuerChain_hands_over_one_record_per_certificate
               [of example_storagelib ?chain inmemory_AddIssuersIfNotExist Map.empty "[]"]
  have keys: "issuerChainKVs example_storagelib ?chain [] =
      [\<lparr>K = ''6162000000000000000000000000000000000000000000000000000000000000'', V = ''ab''\<rparr>,
       \<lparr>K = ''ff0a000000000000000000000000000000000000000000000000000000000000'', V = [CHR 0xFF, CHR 0x0A]\<rparr>]"
    by code_simp
  have key: "EncodeToString (Sum256 example_storagelib [CHR 0xFF, CHR 0x0A])
     = ''ff0a000000000000000000000000000000000000000000000000000000000000''"
    by code_simp
  show ?thesis
    using at_chain keys key by simp
qed

end
